theory Spec2Isabelle
  imports Complex_Main "HOL-Library.AList"
begin

section \<open>Data model of the logistics game (src/main.py)\<close>

text \<open>
  Python floats are modelled as exact reals and Python ints as numbers of the same type
  wherever the code mixes the two (the base pool is filled with ints but receives the
  results of float arithmetic).  Dictionaries that are only looked up by key are maps;
  the two dictionaries whose size or finiteness matters (the road grid and the BFS
  parent table) are association lists.
\<close>

type_synonym coord = "int \<times> int"

datatype error = NameError | KeyError | Diverges

datatype building_type = lumber | quarry | refinery

datatype truck_state = idle | to_source | loading | to_dest | unloading | waiting_for_bmats

type_synonym road_grid = "(coord \<times> int) list"

type_synonym came_from = "(coord \<times> coord option) list"

definition dict_get :: "('k \<rightharpoonup> 'v) \<Rightarrow> 'k \<Rightarrow> 'v \<Rightarrow> 'v" where
  "dict_get m k d = (case m k of None \<Rightarrow> d | Some v \<Rightarrow> v)"

definition GRID_SIZE :: int where
  "GRID_SIZE = 32"

subsection \<open>Roads and pathfinding\<close>

definition is_driveable :: "road_grid \<Rightarrow> coord \<Rightarrow> bool" where
  "is_driveable g c = (dict_get (map_of g) c 0 = 1)"

fun neighbors4 :: "coord \<Rightarrow> coord list" where
  "neighbors4 (x, y) = [(x + 1, y), (x - 1, y), (x, y + 1), (x, y - 1)]"

declare neighbors4.simps [simp del]

text \<open>The body of the inner \<open>for nb in self.neighbors4(cur)\<close> loop of the search.\<close>

definition visit :: "road_grid \<Rightarrow> coord \<Rightarrow> coord \<Rightarrow> came_from \<times> coord list \<Rightarrow> came_from \<times> coord list" where
  "visit g cur nb s =
     (if is_driveable g nb \<and> map_of (fst s) nb = None
      then (fst s @ [(nb, Some cur)], snd s @ [nb])
      else s)"

definition expand :: "road_grid \<Rightarrow> coord \<Rightarrow> came_from \<Rightarrow> coord list \<Rightarrow> came_from \<times> coord list" where
  "expand g cur came queue = fold (visit g cur) (neighbors4 cur) (came, queue)"

definition unseen :: "road_grid \<Rightarrow> came_from \<Rightarrow> coord set" where
  "unseen g came = {c \<in> fst ` set g. is_driveable g c \<and> map_of came c = None}"

lemma finite_unseen: "finite (unseen g came)"
  by (simp add: unseen_def)

lemma is_driveable_in_grid: "is_driveable g c \<Longrightarrow> c \<in> fst ` set g"
  by (auto simp: is_driveable_def dict_get_def split: option.splits dest!: map_of_SomeD intro: rev_image_eqI)

lemma map_of_snoc_None:
  "map_of (xs @ [(k, v)]) c = None \<longleftrightarrow> map_of xs c = None \<and> c \<noteq> k"
  by (auto simp: map_of_eq_None_iff)

lemma visit_measure:
  "card (unseen g (fst (visit g cur nb s))) + length (snd (visit g cur nb s))
     = card (unseen g (fst s)) + length (snd s)"
proof (cases "is_driveable g nb \<and> map_of (fst s) nb = None")
  case False
  then show ?thesis by (auto simp: visit_def)
next
  case True
  then have mem: "nb \<in> unseen g (fst s)"
    by (simp add: unseen_def is_driveable_in_grid)
  have "unseen g (fst s @ [(nb, Some cur)]) = unseen g (fst s) - {nb}"
    by (auto simp: unseen_def map_of_snoc_None)
  moreover have "card (unseen g (fst s) - {nb}) = card (unseen g (fst s)) - 1"
    using mem by (simp add: finite_unseen)
  moreover have "0 < card (unseen g (fst s))"
    using mem finite_unseen[of g "fst s"] by (auto simp: card_gt_0_iff)
  ultimately show ?thesis using True by (simp add: visit_def)
qed

lemma fold_visit_measure:
  "card (unseen g (fst (fold (visit g cur) nbs s))) + length (snd (fold (visit g cur) nbs s))
     = card (unseen g (fst s)) + length (snd s)"
  by (induction nbs arbitrary: s) (simp_all add: visit_measure)

text \<open>
  The \<open>while queue\<close> loop of \<open>find_path_on_roads\<close>: pop the head, stop at the goal,
  otherwise enqueue every driveable neighbour that has no parent yet.
\<close>

function bfs_loop :: "road_grid \<Rightarrow> coord \<Rightarrow> coord list \<Rightarrow> came_from \<Rightarrow> came_from" where
  "bfs_loop g goal [] came = came"
| "bfs_loop g goal (cur # rest) came =
     (if cur = goal then came
      else bfs_loop g goal (snd (expand g cur came rest)) (fst (expand g cur came rest)))"
  by pat_completeness auto
termination
proof (relation "measure (\<lambda>(g, goal, queue, came). card (unseen g came) + length queue)")
  show "wf (measure (\<lambda>(g, goal, queue, came). card (unseen g came) + length queue))"
    by simp
next
  fix g :: road_grid and goal cur :: coord and rest :: "coord list" and came :: came_from
  assume "cur \<noteq> goal"
  have "card (unseen g (fst (expand g cur came rest))) + length (snd (expand g cur came rest))
          = card (unseen g came) + length rest"
    using fold_visit_measure[of g cur "neighbors4 cur" "(came, rest)"]
    by (simp add: expand_def)
  then show "((g, goal, snd (expand g cur came rest), fst (expand g cur came rest)),
              (g, goal, cur # rest, came))
             \<in> measure (\<lambda>(g, goal, queue, came). card (unseen g came) + length queue)"
    by simp
qed

text \<open>
  The reconstruction loop \<open>while cur is not None: path.append(cur); cur = came[cur]\<close>.
  It follows parent links and would not return on a cyclic table, so it is bounded by
  fuel: a chain through more distinct keys than the table holds has met a cycle.
\<close>

fun reconstruct :: "nat \<Rightarrow> came_from \<Rightarrow> coord option \<Rightarrow> coord list \<Rightarrow> error + coord list" where
  "reconstruct n came None path = Inr path"
| "reconstruct 0 came (Some c) path = Inl Diverges"
| "reconstruct (Suc n) came (Some c) path =
     (case map_of came c of
        None \<Rightarrow> Inl KeyError
      | Some p \<Rightarrow> reconstruct n came p (path @ [c]))"

definition find_path_on_roads :: "road_grid \<Rightarrow> coord \<Rightarrow> coord \<Rightarrow> error + coord list" where
  "find_path_on_roads g start goal =
     (if start = goal then Inr [start]
      else
        let came = bfs_loop g goal [start] [(start, None)] in
        if map_of came goal = None then Inr []
        else (case reconstruct (Suc (length came)) came (Some goal) [] of
                Inl e \<Rightarrow> Inl e
              | Inr path \<Rightarrow> Inr (rev path)))"

subsection \<open>Walks on the road grid and hop distance\<close>

fun road_walk :: "road_grid \<Rightarrow> coord list \<Rightarrow> bool" where
  "road_walk g [] = True"
| "road_walk g [c] = True"
| "road_walk g (c # d # p) = (d \<in> set (neighbors4 c) \<and> is_driveable g d \<and> road_walk g (d # p))"

definition connects :: "road_grid \<Rightarrow> coord list \<Rightarrow> coord \<Rightarrow> coord \<Rightarrow> bool" where
  "connects g p s t = (p \<noteq> [] \<and> hd p = s \<and> last p = t \<and> road_walk g p)"

inductive hops :: "road_grid \<Rightarrow> coord \<Rightarrow> nat \<Rightarrow> coord \<Rightarrow> bool" for g s where
  hops_here: "hops g s 0 s"
| hops_step: "hops g s n c \<Longrightarrow> d \<in> set (neighbors4 c) \<Longrightarrow> is_driveable g d \<Longrightarrow> hops g s (Suc n) d"

definition reach :: "road_grid \<Rightarrow> coord \<Rightarrow> coord \<Rightarrow> bool" where
  "reach g s c = (\<exists>n. hops g s n c)"

definition hop_dist :: "road_grid \<Rightarrow> coord \<Rightarrow> coord \<Rightarrow> nat" where
  "hop_dist g s c = (LEAST n. hops g s n c)"

lemma road_walk_snoc:
  "p \<noteq> [] \<Longrightarrow> road_walk g (p @ [d]) = (road_walk g p \<and> d \<in> set (neighbors4 (last p)) \<and> is_driveable g d)"
  by (induction g p rule: road_walk.induct) auto

lemma hops_connects: "hops g s n c \<Longrightarrow> \<exists>p. connects g p s c \<and> length p = Suc n"
proof (induction rule: hops.induct)
  case hops_here
  have "connects g [s] s s" by (simp add: connects_def)
  then show ?case by (intro exI[of _ "[s]"]) simp
next
  case (hops_step n c d)
  then obtain p where p: "connects g p s c" "length p = Suc n" by blast
  then have "connects g (p @ [d]) s d"
    using hops_step.hyps by (simp add: connects_def road_walk_snoc)
  then show ?case using p by (intro exI[of _ "p @ [d]"]) simp
qed

lemma connects_hops: "connects g p s c \<Longrightarrow> hops g s (length p - 1) c"
proof (induction p arbitrary: c rule: rev_induct)
  case Nil
  then show ?case by (simp add: connects_def)
next
  case (snoc d p)
  show ?case
  proof (cases "p = []")
    case True
    then show ?thesis using snoc.prems by (auto simp: connects_def intro: hops_here)
  next
    case False
    then have "connects g p s (last p)" and "d \<in> set (neighbors4 (last p))" and "is_driveable g d" and "c = d"
      using snoc.prems by (auto simp: connects_def road_walk_snoc)
    then have "hops g s (Suc (length p - 1)) c"
      using snoc.IH[of "last p"] by (auto intro: hops_step)
    then show ?thesis using False by (cases p) auto
  qed
qed

lemma hop_dist_le: "hops g s n c \<Longrightarrow> hop_dist g s c \<le> n"
  unfolding hop_dist_def by (rule Least_le)

lemma hops_hop_dist: "reach g s c \<Longrightarrow> hops g s (hop_dist g s c) c"
  unfolding hop_dist_def reach_def by (erule exE) (rule LeastI)

lemma hops_0_iff: "hops g s 0 c \<longleftrightarrow> c = s"
  by (auto elim: hops.cases intro: hops_here)

lemma hop_dist_start: "hop_dist g s s = 0"
  using hop_dist_le[OF hops_here, of g s] by simp

lemma reach_start: "reach g s s"
  unfolding reach_def by (blast intro: hops_here)

lemma reach_step:
  "reach g s c \<Longrightarrow> d \<in> set (neighbors4 c) \<Longrightarrow> is_driveable g d \<Longrightarrow> reach g s d"
  unfolding reach_def by (blast intro: hops_step)

lemma hop_dist_step:
  assumes "reach g s c" "d \<in> set (neighbors4 c)" "is_driveable g d"
  shows "hop_dist g s d \<le> Suc (hop_dist g s c)"
  using hops_step[OF hops_hop_dist[OF assms(1)] assms(2,3)] by (rule hop_dist_le)

lemma hop_dist_0: "reach g s c \<Longrightarrow> hop_dist g s c = 0 \<Longrightarrow> c = s"
  using hops_hop_dist[of g s c] by (simp add: hops_0_iff)

lemma hop_dist_pred:
  assumes "reach g s x" "hop_dist g s x = Suc k"
  shows "\<exists>y. reach g s y \<and> x \<in> set (neighbors4 y) \<and> is_driveable g x \<and> hop_dist g s y = k"
proof -
  have "hops g s (Suc k) x" using hops_hop_dist[OF assms(1)] assms(2) by simp
  then obtain y where y: "hops g s k y" "x \<in> set (neighbors4 y)" "is_driveable g x"
    by (auto elim: hops.cases)
  have r: "reach g s y" using y(1) by (auto simp: reach_def)
  have "hop_dist g s y \<le> k" using y(1) by (rule hop_dist_le)
  moreover have "Suc k \<le> Suc (hop_dist g s y)"
    using hop_dist_step[OF r y(2,3)] assms(2) by simp
  ultimately have "hop_dist g s y = k" by simp
  with r y show ?thesis by blast
qed

subsection \<open>The invariant of the search\<close>

definition seen :: "came_from \<Rightarrow> coord \<Rightarrow> bool" where
  "seen came c = (map_of came c \<noteq> None)"

definition parent_tree :: "road_grid \<Rightarrow> coord \<Rightarrow> came_from \<Rightarrow> bool" where
  "parent_tree g s came =
     (map_of came s = Some None \<and>
      (\<forall>c. map_of came c = Some None \<longrightarrow> c = s) \<and>
      (\<forall>c p. map_of came c = Some (Some p) \<longrightarrow>
          seen came p \<and> c \<in> set (neighbors4 p) \<and> is_driveable g c \<and>
          hop_dist g s c = Suc (hop_dist g s p)) \<and>
      (\<forall>c. seen came c \<longrightarrow> reach g s c))"

definition bfs_inv :: "road_grid \<Rightarrow> coord \<Rightarrow> coord list \<Rightarrow> came_from \<Rightarrow> bool" where
  "bfs_inv g s queue came =
     (parent_tree g s came \<and>
      (\<forall>c \<in> set queue. seen came c) \<and>
      (\<forall>c nb. seen came c \<longrightarrow> c \<notin> set queue \<longrightarrow> nb \<in> set (neighbors4 c) \<longrightarrow> is_driveable g nb
          \<longrightarrow> seen came nb) \<and>
      sorted (map (hop_dist g s) queue) \<and>
      (\<forall>c \<in> set queue. hop_dist g s c \<le> Suc (hop_dist g s (hd queue))))"

lemma map_of_snoc:
  "map_of (xs @ [(k, v)]) c = (case map_of xs c of None \<Rightarrow> (if c = k then Some v else None) | Some w \<Rightarrow> Some w)"
  by (simp add: map_add_def split: option.splits)

lemma visit_lookup:
  "map_of (fst (visit g cur nb s)) c =
     (case map_of (fst s) c of
        Some w \<Rightarrow> Some w
      | None \<Rightarrow> if c = nb \<and> is_driveable g nb then Some (Some cur) else None)"
  by (auto simp: visit_def map_add_def split: option.splits)

lemma fold_visit_lookup:
  "map_of (fst (fold (visit g cur) nbs s)) c =
     (case map_of (fst s) c of
        Some w \<Rightarrow> Some w
      | None \<Rightarrow> if c \<in> set nbs \<and> is_driveable g c then Some (Some cur) else None)"
proof (induction nbs arbitrary: s)
  case Nil
  then show ?case by (simp split: option.splits)
next
  case (Cons nb nbs)
  show ?case
    by (cases "map_of (fst s) c") (auto simp: Cons.IH visit_lookup)
qed

lemma visit_queue:
  "\<exists>new. snd (visit g cur nb s) = snd s @ new \<and>
          set new = {c. c = nb \<and> is_driveable g c \<and> map_of (fst s) c = None}"
  by (auto simp: visit_def)

lemma fold_visit_queue:
  "\<exists>new. snd (fold (visit g cur) nbs s) = snd s @ new \<and>
          set new = {c \<in> set nbs. is_driveable g c \<and> map_of (fst s) c = None}"
proof (induction nbs arbitrary: s)
  case Nil
  then show ?case by simp
next
  case (Cons nb nbs)
  obtain n1 where n1: "snd (visit g cur nb s) = snd s @ n1"
      "set n1 = {c. c = nb \<and> is_driveable g c \<and> map_of (fst s) c = None}"
    using visit_queue by blast
  obtain n2 where n2: "snd (fold (visit g cur) nbs (visit g cur nb s)) = snd (visit g cur nb s) @ n2"
      "set n2 = {c \<in> set nbs. is_driveable g c \<and> map_of (fst (visit g cur nb s)) c = None}"
    using Cons.IH by blast
  have "set (n1 @ n2) = {c \<in> set (nb # nbs). is_driveable g c \<and> map_of (fst s) c = None}"
  proof -
    have "\<And>c. map_of (fst (visit g cur nb s)) c = None \<longleftrightarrow>
            map_of (fst s) c = None \<and> \<not> (c = nb \<and> is_driveable g nb)"
      by (simp add: visit_lookup split: option.splits)
    then show ?thesis using n1(2) n2(2) by auto
  qed
  moreover have "snd (fold (visit g cur) (nb # nbs) s) = snd s @ (n1 @ n2)"
    using n1(1) n2(1) by simp
  ultimately show ?case by blast
qed

lemma expand_lookup:
  "map_of (fst (expand g cur came queue)) c =
     (case map_of came c of
        Some w \<Rightarrow> Some w
      | None \<Rightarrow> if c \<in> set (neighbors4 cur) \<and> is_driveable g c then Some (Some cur) else None)"
  by (simp add: expand_def fold_visit_lookup)

lemma expand_queue:
  "\<exists>new. snd (expand g cur came queue) = queue @ new \<and>
          set new = {c \<in> set (neighbors4 cur). is_driveable g c \<and> map_of came c = None}"
  using fold_visit_queue[of g cur "neighbors4 cur" "(came, queue)"] by (simp add: expand_def)

lemma seen_expand:
  "seen (fst (expand g cur came queue)) c \<longleftrightarrow>
     seen came c \<or> (c \<in> set (neighbors4 cur) \<and> is_driveable g c)"
  by (auto simp: seen_def expand_lookup split: option.splits)

lemma frontier_seen:
  assumes inv: "bfs_inv g s (cur # rest) came"
  shows "reach g s x \<Longrightarrow> hop_dist g s x \<le> hop_dist g s cur \<Longrightarrow> seen came x"
proof (induction "hop_dist g s x" arbitrary: x)
  case 0
  then have "x = s" using hop_dist_0 by simp
  then show ?case using inv by (simp add: bfs_inv_def parent_tree_def seen_def)
next
  case (Suc k)
  obtain y where y: "reach g s y" "x \<in> set (neighbors4 y)" "is_driveable g x" "hop_dist g s y = k"
    using hop_dist_pred[OF Suc.prems(1) Suc.hyps(2)[symmetric]] by blast
  have lt: "hop_dist g s y < hop_dist g s cur" using y(4) Suc.hyps(2) Suc.prems(2) by simp
  have "seen came y" using Suc.hyps(1)[of y] y lt by simp
  moreover have "y \<notin> set (cur # rest)"
  proof
    assume "y \<in> set (cur # rest)"
    moreover have "\<forall>c \<in> set (cur # rest). hop_dist g s cur \<le> hop_dist g s c"
      using inv by (auto simp: bfs_inv_def)
    ultimately show False using lt by auto
  qed
  ultimately show ?case using inv y(2,3) unfolding bfs_inv_def by blast
qed

lemma sorted_map_const: "(\<And>x. x \<in> set xs \<Longrightarrow> f x = (k::nat)) \<Longrightarrow> sorted (map f xs)"
  by (induction xs) auto

lemma bfs_inv_expand:
  assumes inv: "bfs_inv g s (cur # rest) came"
  shows "bfs_inv g s (snd (expand g cur came rest)) (fst (expand g cur came rest))"
proof -
  let ?came' = "fst (expand g cur came rest)"
  let ?q' = "snd (expand g cur came rest)"
  let ?d = "hop_dist g s"
  obtain new where q': "?q' = rest @ new"
    and new_set: "set new = {c \<in> set (neighbors4 cur). is_driveable g c \<and> map_of came c = None}"
    using expand_queue by blast
  have new: "\<And>c. c \<in> set new \<longleftrightarrow> c \<in> set (neighbors4 cur) \<and> is_driveable g c \<and> map_of came c = None"
    by (simp add: new_set)
  have tree: "parent_tree g s came" using inv unfolding bfs_inv_def by blast
  have seen_q: "\<And>c. c \<in> set (cur # rest) \<Longrightarrow> seen came c" using inv unfolding bfs_inv_def by blast
  have closed: "\<And>c nb. seen came c \<Longrightarrow> c \<notin> set (cur # rest) \<Longrightarrow> nb \<in> set (neighbors4 c)
                  \<Longrightarrow> is_driveable g nb \<Longrightarrow> seen came nb"
    using inv unfolding bfs_inv_def by blast
  have srt: "sorted (map ?d (cur # rest))" using inv unfolding bfs_inv_def by blast
  have near: "\<And>c. c \<in> set (cur # rest) \<Longrightarrow> ?d c \<le> Suc (?d cur)"
  proof -
    fix c assume "c \<in> set (cur # rest)"
    moreover have "\<forall>c \<in> set (cur # rest). ?d c \<le> Suc (?d (hd (cur # rest)))"
      using inv unfolding bfs_inv_def by blast
    ultimately show "?d c \<le> Suc (?d cur)" by auto
  qed
  have reach_seen: "\<And>c. seen came c \<Longrightarrow> reach g s c" using tree unfolding parent_tree_def by blast
  have root: "map_of came s = Some None" using tree unfolding parent_tree_def by blast
  have rcur: "reach g s cur" using seen_q reach_seen by simp
  have old: "\<And>c. seen came c \<Longrightarrow> map_of ?came' c = map_of came c"
    by (auto simp: seen_def expand_lookup)
  have fresh: "\<And>c. c \<in> set new \<Longrightarrow> map_of ?came' c = Some (Some cur)"
    by (simp add: new expand_lookup)
  have split: "\<And>c. seen ?came' c \<Longrightarrow> seen came c \<or> c \<in> set new"
  proof -
    fix c assume "seen ?came' c"
    then have "seen came c \<or> (c \<in> set (neighbors4 cur) \<and> is_driveable g c)"
      by (simp only: seen_expand)
    then show "seen came c \<or> c \<in> set new"
      by (cases "map_of came c") (simp_all add: new seen_def)
  qed
  have mono: "\<And>c. seen came c \<Longrightarrow> seen ?came' c" by (simp add: seen_expand)
  have new_seen: "\<And>c. c \<in> set new \<Longrightarrow> seen ?came' c" using fresh by (simp add: seen_def)
  have new_reach: "\<And>c. c \<in> set new \<Longrightarrow> reach g s c"
    using rcur by (simp add: new) (blast intro: reach_step)
  have new_dist: "\<And>c. c \<in> set new \<Longrightarrow> ?d c = Suc (?d cur)"
  proof -
    fix c assume c: "c \<in> set new"
    then have nb: "c \<in> set (neighbors4 cur)" "is_driveable g c" "\<not> seen came c"
      by (simp_all add: new seen_def)
    have "?d c \<le> Suc (?d cur)" using hop_dist_step[OF rcur nb(1,2)] .
    moreover have "\<not> ?d c \<le> ?d cur"
      using frontier_seen[OF inv new_reach[OF c]] nb(3) by blast
    ultimately show "?d c = Suc (?d cur)" by simp
  qed
  have lookup_cases: "\<And>c v. map_of ?came' c = Some v \<Longrightarrow>
        map_of came c = Some v \<or> (c \<in> set new \<and> v = Some cur)"
    by (simp add: new expand_lookup split: option.splits if_splits)
  have t1: "map_of ?came' s = Some None"
    using root old[of s] by (simp add: seen_def)
  have t2: "\<forall>c. map_of ?came' c = Some None \<longrightarrow> c = s"
    using lookup_cases tree unfolding parent_tree_def by blast
  have t3: "\<forall>c p. map_of ?came' c = Some (Some p) \<longrightarrow>
          seen ?came' p \<and> c \<in> set (neighbors4 p) \<and> is_driveable g c \<and> ?d c = Suc (?d p)"
  proof (intro allI impI)
    fix c p assume a: "map_of ?came' c = Some (Some p)"
    from lookup_cases[OF a] show "seen ?came' p \<and> c \<in> set (neighbors4 p) \<and> is_driveable g c \<and> ?d c = Suc (?d p)"
    proof
      assume "map_of came c = Some (Some p)"
      then show ?thesis using tree mono unfolding parent_tree_def by blast
    next
      assume b: "c \<in> set new \<and> Some p = Some cur"
      then have "p = cur" by simp
      moreover have "seen ?came' cur" using mono seen_q by simp
      ultimately show ?thesis using b new[of c] new_dist[of c] by simp
    qed
  qed
  have t4: "\<forall>c. seen ?came' c \<longrightarrow> reach g s c"
    using split reach_seen new_reach by blast
  have tree': "parent_tree g s ?came'"
    unfolding parent_tree_def using t1 t2 t3 t4 by blast
  have q1: "\<forall>c \<in> set ?q'. seen ?came' c"
  proof
    fix c assume "c \<in> set ?q'"
    then have "c \<in> set rest \<or> c \<in> set new" by (simp add: q')
    then show "seen ?came' c" using seen_q[of c] mono[of c] new_seen[of c] by (elim disjE) simp_all
  qed
  have q2: "\<forall>c nb. seen ?came' c \<longrightarrow> c \<notin> set ?q' \<longrightarrow> nb \<in> set (neighbors4 c) \<longrightarrow> is_driveable g nb
          \<longrightarrow> seen ?came' nb"
  proof (intro allI impI)
    fix c nb
    assume a: "seen ?came' c" "c \<notin> set ?q'" "nb \<in> set (neighbors4 c)" "is_driveable g nb"
    show "seen ?came' nb"
    proof (cases "c = cur")
      case True
      then show ?thesis using a(3,4) by (simp add: seen_expand)
    next
      case False
      have "c \<notin> set new" "c \<notin> set rest" using a(2) by (simp_all add: q')
      then have "seen came c" "c \<notin> set (cur # rest)" using split[OF a(1)] False by simp_all
      then show ?thesis using closed a(3,4) mono by blast
    qed
  qed
  have rest_ge: "\<And>c. c \<in> set rest \<Longrightarrow> ?d cur \<le> ?d c" using srt by simp
  have q3: "sorted (map ?d ?q')"
  proof -
    have "sorted (map ?d rest)" using srt by simp
    moreover have "sorted (map ?d new)" using new_dist by (rule sorted_map_const)
    moreover have "\<forall>x \<in> set rest. \<forall>y \<in> set new. ?d x \<le> ?d y"
    proof (intro ballI)
      fix x y assume "x \<in> set rest" "y \<in> set new"
      then show "?d x \<le> ?d y" using near[of x] new_dist[of y] by simp
    qed
    ultimately show ?thesis using q' by (simp add: sorted_append)
  qed
  have q4: "\<forall>c \<in> set ?q'. ?d c \<le> Suc (?d (hd ?q'))"
  proof
    fix c assume c: "c \<in> set ?q'"
    define h where "h = hd ?q'"
    have "h \<in> set ?q'" unfolding h_def using c by (cases ?q') auto
    then have "h \<in> set rest \<or> h \<in> set new" by (simp add: q')
    then have lo: "?d cur \<le> ?d h"
      using rest_ge[of h] new_dist[of h] by (elim disjE) simp_all
    have "c \<in> set rest \<or> c \<in> set new" using c by (simp add: q')
    then have "?d c \<le> Suc (?d cur)"
      using near[of c] new_dist[of c] by (elim disjE) simp_all
    then show "?d c \<le> Suc (?d (hd ?q'))" using lo unfolding h_def by simp
  qed
  show ?thesis unfolding bfs_inv_def using tree' q1 q2 q3 q4 by blast
qed

lemma closed_reach:
  assumes "seen came s"
    and "\<And>c nb. seen came c \<Longrightarrow> nb \<in> set (neighbors4 c) \<Longrightarrow> is_driveable g nb \<Longrightarrow> seen came nb"
  shows "hops g s n c \<Longrightarrow> seen came c"
  by (induction rule: hops.induct) (auto intro: assms)

lemma bfs_loop_post:
  "bfs_inv g s queue came \<Longrightarrow>
     parent_tree g s (bfs_loop g goal queue came) \<and>
     (reach g s goal \<longrightarrow> seen (bfs_loop g goal queue came) goal)"
proof (induction g goal queue came rule: bfs_loop.induct)
  case (1 g goal came)
  then have tree: "parent_tree g s came"
    unfolding bfs_inv_def by blast
  have cl: "\<forall>c nb. seen came c \<longrightarrow> c \<notin> set [] \<longrightarrow> nb \<in> set (neighbors4 c) \<longrightarrow> is_driveable g nb
          \<longrightarrow> seen came nb"
    using 1 unfolding bfs_inv_def by blast
  have closed: "\<And>c nb. seen came c \<Longrightarrow> nb \<in> set (neighbors4 c) \<Longrightarrow> is_driveable g nb \<Longrightarrow> seen came nb"
  proof -
    fix c nb
    assume "seen came c" "nb \<in> set (neighbors4 c)" "is_driveable g nb"
    then show "seen came nb" using cl[rule_format, of c nb] by simp
  qed
  have "map_of came s = Some None" using tree unfolding parent_tree_def by blast
  then have "seen came s" by (simp add: seen_def)
  then have "reach g s goal \<longrightarrow> seen came goal"
    using closed_reach[of came s g] closed unfolding reach_def by blast
  then show ?case using tree by simp
next
  case (2 g goal cur rest came)
  show ?case
  proof (cases "cur = goal")
    case True
    have "parent_tree g s came" and "seen came cur"
      using "2.prems" unfolding bfs_inv_def by (blast, simp)
    then show ?thesis using True by simp
  next
    case False
    then show ?thesis using "2.IH"[OF False bfs_inv_expand[OF "2.prems"]] by simp
  qed
qed

lemma bfs_inv_init: "bfs_inv g s [s] [(s, None)]"
proof -
  have "parent_tree g s [(s, None)]"
    unfolding parent_tree_def seen_def by (auto simp: reach_start split: if_splits)
  then show ?thesis
    unfolding bfs_inv_def seen_def by (auto split: if_splits)
qed

subsection \<open>Reconstruction and the correctness of the search\<close>

lemma tree_levels:
  assumes tree: "parent_tree g s came"
  shows "seen came c \<Longrightarrow> k \<le> hop_dist g s c \<Longrightarrow> \<exists>a. seen came a \<and> hop_dist g s a = k"
proof (induction "hop_dist g s c" arbitrary: c)
  case 0
  then show ?case by (intro exI[of _ c]) simp
next
  case (Suc n)
  show ?case
  proof (cases "k = Suc n")
    case True
    then show ?thesis using Suc.hyps(2) Suc.prems(1) by (intro exI[of _ c]) simp
  next
    case False
    then have kn: "k \<le> n" using Suc.hyps(2) Suc.prems(2) by simp
    obtain x where x: "map_of came c = Some x" using Suc.prems(1) by (auto simp: seen_def)
    show ?thesis
    proof (cases x)
      case None
      then have "c = s" using tree x unfolding parent_tree_def by blast
      then show ?thesis using Suc.hyps(2) by (simp add: hop_dist_start)
    next
      case (Some p)
      then have "seen came p \<and> hop_dist g s c = Suc (hop_dist g s p)"
        using tree x unfolding parent_tree_def by blast
      then have "seen came p" "n = hop_dist g s p" using Suc.hyps(2) by simp_all
      then show ?thesis using Suc.hyps(1)[of p] kn by simp
    qed
  qed
qed

lemma tree_depth_bound:
  assumes tree: "parent_tree g s came" and c: "seen came c"
  shows "hop_dist g s c < length came"
proof -
  let ?S = "{a. seen came a}"
  have S: "?S = fst ` set came"
    by (auto simp: seen_def map_of_eq_None_iff)
  have fin: "finite ?S" by (simp add: S)
  have "{0..hop_dist g s c} \<subseteq> hop_dist g s ` ?S"
  proof
    fix k assume "k \<in> {0..hop_dist g s c}"
    then have "k \<le> hop_dist g s c" by simp
    then obtain a where "seen came a" "hop_dist g s a = k"
      using tree_levels[OF tree c] by blast
    then show "k \<in> hop_dist g s ` ?S" by auto
  qed
  then have "card {0..hop_dist g s c} \<le> card (hop_dist g s ` ?S)"
    using fin by (intro card_mono) auto
  also have "\<dots> \<le> card ?S" using fin by (rule card_image_le)
  also have "\<dots> \<le> length came"
    unfolding S using card_image_le[of "set came" fst] card_length[of came] by simp
  finally show ?thesis by simp
qed

lemma reconstruct_tree:
  assumes tree: "parent_tree g s came"
  shows "seen came c \<Longrightarrow> hop_dist g s c < fuel \<Longrightarrow>
         \<exists>p. reconstruct fuel came (Some c) acc = Inr (acc @ p) \<and>
             length p = Suc (hop_dist g s c) \<and> hd p = c \<and> last p = s \<and> p \<noteq> [] \<and>
             road_walk g (rev p)"
proof (induction "hop_dist g s c" arbitrary: c acc fuel)
  case 0
  obtain m where fuel: "fuel = Suc m" using 0 by (cases fuel) auto
  have "reach g s c" using tree 0(2) unfolding parent_tree_def by blast
  then have cs: "c = s" using 0(1) hop_dist_0 by simp
  then have "map_of came c = Some None" using tree unfolding parent_tree_def by blast
  then have "reconstruct fuel came (Some c) acc = Inr (acc @ [c])"
    by (simp add: fuel)
  then show ?case using cs 0(1) by simp
next
  case (Suc n)
  obtain m where fuel: "fuel = Suc m" using Suc.prems(2) by (cases fuel) auto
  obtain x where x: "map_of came c = Some x" using Suc.prems(1) by (auto simp: seen_def)
  have "x \<noteq> None"
  proof
    assume "x = None"
    then have "c = s" using tree x unfolding parent_tree_def by blast
    then show False using Suc.hyps(2) by (simp add: hop_dist_start)
  qed
  then obtain q where q: "x = Some q" by auto
  have par: "seen came q" "c \<in> set (neighbors4 q)" "is_driveable g c"
      "hop_dist g s c = Suc (hop_dist g s q)"
    using tree x q unfolding parent_tree_def by blast+
  have nq: "n = hop_dist g s q" using par(4) Suc.hyps(2) by simp
  have "hop_dist g s q < m" using par(4) Suc.prems(2) fuel by simp
  then obtain p where p: "reconstruct m came (Some q) (acc @ [c]) = Inr ((acc @ [c]) @ p)"
      "length p = Suc (hop_dist g s q)" "hd p = q" "last p = s" "p \<noteq> []" "road_walk g (rev p)"
    using Suc.hyps(1)[OF nq par(1), of m "acc @ [c]"] by blast
  have "reconstruct fuel came (Some c) acc = Inr (acc @ (c # p))"
    using p(1) x q by (simp add: fuel)
  moreover have "road_walk g (rev (c # p))"
    using p(3,5,6) par(2,3) by (simp add: road_walk_snoc last_rev)
  ultimately show ?case using p(2,4,5) par(4) by (intro exI[of _ "c # p"]) simp
qed

lemma connects_reach: "connects g q s t \<Longrightarrow> reach g s t"
  unfolding reach_def using connects_hops by blast

lemma reach_connects: "reach g s t \<Longrightarrow> \<exists>q. connects g q s t"
  unfolding reach_def using hops_connects by blast

lemma connects_length: "connects g q s t \<Longrightarrow> Suc (hop_dist g s t) \<le> length q"
proof -
  assume c: "connects g q s t"
  then have "q \<noteq> []" by (simp add: connects_def)
  moreover have "hop_dist g s t \<le> length q - 1"
    using hop_dist_le[OF connects_hops[OF c]] .
  ultimately show ?thesis by (cases q) auto
qed

lemma find_path_unreachable:
  assumes "\<not> (\<exists>q. connects g q s t)"
  shows "find_path_on_roads g s t = Inr []"
proof -
  have ne: "s \<noteq> t"
  proof
    assume "s = t"
    then have "connects g [s] s t" by (simp add: connects_def)
    then show False using assms by blast
  qed
  let ?came = "bfs_loop g t [s] [(s, None)]"
  have "parent_tree g s ?came"
    using bfs_loop_post[OF bfs_inv_init] by blast
  then have "\<forall>c. seen ?came c \<longrightarrow> reach g s c" unfolding parent_tree_def by blast
  moreover have "\<not> reach g s t" using assms reach_connects by blast
  ultimately have "map_of ?came t = None" unfolding seen_def by blast
  then show ?thesis unfolding find_path_on_roads_def Let_def using ne
    by (simp del: bfs_loop.simps reconstruct.simps)
qed

lemma find_path_reachable:
  assumes r: "connects g q0 s t" and ne: "s \<noteq> t"
  shows "\<exists>p. find_path_on_roads g s t = Inr p \<and> connects g p s t \<and>
             (\<forall>q. connects g q s t \<longrightarrow> length p \<le> length q)"
proof -
  let ?came = "bfs_loop g t [s] [(s, None)]"
  have post: "parent_tree g s ?came" "reach g s t \<longrightarrow> seen ?came t"
    using bfs_loop_post[OF bfs_inv_init, of g s t] by blast+
  have seen: "seen ?came t" using post(2) connects_reach[OF r] by blast
  have "hop_dist g s t < Suc (length ?came)"
    using tree_depth_bound[OF post(1) seen] by simp
  then obtain p where p: "reconstruct (Suc (length ?came)) ?came (Some t) [] = Inr ([] @ p)"
      "length p = Suc (hop_dist g s t)" "hd p = t" "last p = s" "p \<noteq> []" "road_walk g (rev p)"
    using reconstruct_tree[OF post(1) seen, of "Suc (length ?came)" "[]"] by blast
  have "map_of ?came t \<noteq> None" using seen by (simp add: seen_def)
  then have "find_path_on_roads g s t = Inr (rev p)"
    unfolding find_path_on_roads_def Let_def using ne p(1)
    by (auto simp del: bfs_loop.simps reconstruct.simps)
  moreover have "connects g (rev p) s t"
    using p(3,4,5,6) by (simp add: connects_def hd_rev last_rev)
  moreover have "\<forall>q. connects g q s t \<longrightarrow> length (rev p) \<le> length q"
    using connects_length p(2) by simp
  ultimately show ?thesis by blast
qed

text \<open>
  Claim C2.  \<open>find_path_on_roads\<close> is a breadth-first search over the 4-neighbourhoods
  of driveable cells: for \<open>start = goal\<close> it returns the one-cell path; when the goal can
  be reached from the start by a walk whose cells after the first are all driveable, it
  returns such a walk (consecutive cells 4-adjacent, every cell after the start driveable)
  from start to goal, and no walk from start to goal has fewer cells; when there is no
  such walk it returns the empty list.  In every case the search returns (no error, no
  divergence).
\<close>

theorem find_path_on_roads_bfs:
  "(s = t \<longrightarrow> find_path_on_roads g s t = Inr [s]) \<and>
   (s \<noteq> t \<and> (\<exists>q. connects g q s t) \<longrightarrow>
      (\<exists>p. find_path_on_roads g s t = Inr p \<and> connects g p s t \<and>
           (\<forall>q. connects g q s t \<longrightarrow> length p \<le> length q))) \<and>
   (\<not> (\<exists>q. connects g q s t) \<longrightarrow> find_path_on_roads g s t = Inr [])"
  using find_path_reachable[of g _ s t] find_path_unreachable[of g s t]
  by (auto simp: find_path_on_roads_def)

theorem find_path_on_roads_bfs_witness:
  "\<exists>p. find_path_on_roads [((0,0),1),((1,0),1),((1,1),1),((2,0),1)] (0,0) (2,0) = Inr p \<and>
       connects [((0,0),1),((1,0),1),((1,1),1),((2,0),1)] p (0,0) (2,0) \<and> length p \<le> 3"
proof -
  let ?g = "[((0,0),1),((1,0),1),((1,1),1),((2,0),1)] :: road_grid"
  have c: "connects ?g [(0,0),(1,0),(2,0)] (0,0) (2,0)"
    by (simp add: connects_def neighbors4.simps is_driveable_def dict_get_def)
  then have "\<exists>q. connects ?g q (0,0) (2,0)" by blast
  then obtain p where p: "find_path_on_roads ?g (0,0) (2,0) = Inr p" "connects ?g p (0,0) (2,0)"
      "\<forall>q. connects ?g q (0,0) (2,0) \<longrightarrow> length p \<le> length q"
    using find_path_on_roads_bfs[of "(0,0)" "(2,0)" ?g] by auto
  have "length p \<le> 3" using p(3) c by fastforce
  then show ?thesis using p(1,2) by blast
qed

section \<open>The world: buildings, trucks and the game state\<close>

text \<open>
  The dataclasses \<open>Building\<close> and \<open>Truck\<close> and the simulation fields of \<open>Game\<close>.
  Attributes that the code attaches to an object at run time (\<open>conversion_timer\<close>,
  \<open>_dest_cell\<close>, \<open>refinery_loop\<close>, \<open>stone_delivered\<close>, \<open>waiting_timer\<close>,
  \<open>waiting_target\<close>) are optional fields: \<open>None\<close> is the absent attribute.  The
  colours and the facing direction of a truck only feed the renderer and are left out.
\<close>

record building =
  btype :: building_type
  cell :: coord
  radius_cells :: int
  production_rate_per_sec :: real
  storage :: "string \<rightharpoonup> real"
  conversion_timer :: "real option"

record truck =
  truck_id :: int
  position_px :: "real \<times> real"
  current_cell :: coord
  path_cells :: "coord list"
  speed_px_per_sec :: real
  state :: truck_state
  cargo_type :: "string option"
  cargo_amount :: real
  cargo_capacity :: real
  repeat_enabled :: bool
  saved_source :: "coord option"
  saved_dest :: "coord option"
  saved_resource :: "string option"
  dest_cell :: "coord option"
  refinery_loop :: "bool option"
  stone_delivered :: "real option"
  waiting_timer :: "real option"
  waiting_target :: "real option"

record game =
  roads :: "coord set"
  road_grid :: road_grid
  trees :: "coord set"
  stones :: "coord set"
  resources :: "string \<rightharpoonup> real"
  buildings :: "building list"
  trucks :: "truck list"
  next_truck_id :: int
  base_cell :: coord
  trucks_built :: int

text \<open>Python's \<open>int(x)\<close> on a float truncates towards zero.\<close>

definition py_int :: "real \<Rightarrow> int" where
  "py_int x = (if 0 \<le> x then \<lfloor>x\<rfloor> else \<lceil>x\<rceil>)"

text \<open>\<open>d[k] += v\<close> reads the key first and raises \<open>KeyError\<close> when it is missing.\<close>

definition dict_add :: "('k \<rightharpoonup> real) \<Rightarrow> 'k \<Rightarrow> real \<Rightarrow> error + ('k \<rightharpoonup> real)" where
  "dict_add m k v = (case m k of None \<Rightarrow> Inl KeyError | Some x \<Rightarrow> Inr (m(k \<mapsto> x + v)))"

definition get_building_at_cell :: "game \<Rightarrow> coord \<Rightarrow> building option" where
  "get_building_at_cell g c = find (\<lambda>b. cell b = c) (buildings g)"

text \<open>
  A building returned by \<open>get_building_at_cell\<close> is mutated in place: the first
  building of the list at that cell changes.
\<close>

fun update_building_at :: "coord \<Rightarrow> (building \<Rightarrow> building) \<Rightarrow> building list \<Rightarrow> building list" where
  "update_building_at c f [] = []"
| "update_building_at c f (b # bs) =
     (if cell b = c then f b # bs else b # update_building_at c f bs)"

definition is_cell_in_base_area :: "game \<Rightarrow> coord \<Rightarrow> bool" where
  "is_cell_in_base_area g c =
     (fst (base_cell g) \<le> fst c \<and> fst c \<le> fst (base_cell g) + 1 \<and>
      snd (base_cell g) \<le> snd c \<and> snd c \<le> snd (base_cell g) + 1)"

definition is_cell_adjacent_to_base :: "game \<Rightarrow> coord \<Rightarrow> bool" where
  "is_cell_adjacent_to_base g c =
     ((fst (base_cell g) - 1 \<le> fst c \<and> fst c \<le> fst (base_cell g) + 2) \<and>
      (snd (base_cell g) - 1 \<le> snd c \<and> snd c \<le> snd (base_cell g) + 2))"

text \<open>
  \<open>find_nearest_road_to_cell\<close>: the cell itself when driveable, otherwise the first
  driveable candidate of the rings \<open>d = 1 .. max_dist\<close>, scanned in the order of the
  three nested loops.
\<close>

definition ring_candidates :: "coord \<Rightarrow> int \<Rightarrow> coord list" where
  "ring_candidates c d =
     concat (map (\<lambda>dx. map (\<lambda>sy. (fst c + dx, snd c + sy * (d - \<bar>dx\<bar>))) [-1, 1]) [- d..d])"

definition find_nearest_road_to_cell_within :: "road_grid \<Rightarrow> coord \<Rightarrow> int \<Rightarrow> coord option" where
  "find_nearest_road_to_cell_within rg c max_dist =
     (if is_driveable rg c then Some c
      else find (is_driveable rg) (concat (map (ring_candidates c) [1..max_dist])))"

definition find_nearest_road_to_cell :: "road_grid \<Rightarrow> coord \<Rightarrow> coord option" where
  "find_nearest_road_to_cell rg c = find_nearest_road_to_cell_within rg c 12"

definition is_cell_connected_to_base_by_roads :: "game \<Rightarrow> coord \<Rightarrow> error + bool" where
  "is_cell_connected_to_base_by_roads g c =
     (case find_nearest_road_to_cell (road_grid g) c of
        None \<Rightarrow> Inr False
      | Some start \<Rightarrow>
          (case find_nearest_road_to_cell (road_grid g) (base_cell g) of
             None \<Rightarrow> Inr False
           | Some goal \<Rightarrow>
               (case find_path_on_roads (road_grid g) start goal of
                  Inl e \<Rightarrow> Inl e
                | Inr path \<Rightarrow> Inr (0 < length path))))"

subsection \<open>Production\<close>

text \<open>The body of the production loop of \<open>update\<close>, for one building.\<close>

definition produce :: "game \<Rightarrow> real \<Rightarrow> building \<Rightarrow> error + building" where
  "produce g dt b =
     (if production_rate_per_sec b \<le> 0 then Inr b
      else
        (case is_cell_connected_to_base_by_roads g (cell b) of
           Inl e \<Rightarrow> Inl e
         | Inr conn \<Rightarrow>
             if \<not> conn then Inr b
             else
               (case btype b of
                  lumber \<Rightarrow>
                    Inr (b\<lparr>storage := (storage b)(''wood'' \<mapsto>
                            dict_get (storage b) ''wood'' 0 + production_rate_per_sec b * dt)\<rparr>)
                | quarry \<Rightarrow>
                    Inr (b\<lparr>storage := (storage b)(''stone'' \<mapsto>
                            dict_get (storage b) ''stone'' 0 + production_rate_per_sec b * dt)\<rparr>)
                | refinery \<Rightarrow>
                    (let stone_available = dict_get (storage b) ''stone'' 0 in
                     if 0 < stone_available then
                       (let timer = (case conversion_timer b of None \<Rightarrow> 0 | Some x \<Rightarrow> x) + dt in
                        if 5 \<le> timer then
                          Inr (b\<lparr>storage := ((storage b)(''stone'' \<mapsto> stone_available - 1))
                                   (''bmats'' \<mapsto> dict_get (storage b) ''bmats'' 0 + 1),
                                 conversion_timer := Some 0\<rparr>)
                        else Inr (b\<lparr>conversion_timer := Some timer\<rparr>))
                     else Inr b))))"

fun produce_all :: "game \<Rightarrow> real \<Rightarrow> building list \<Rightarrow> error + building list" where
  "produce_all g dt [] = Inr []"
| "produce_all g dt (b # bs) =
     (case produce g dt b of
        Inl e \<Rightarrow> Inl e
      | Inr b' \<Rightarrow>
          (case produce_all g dt bs of
             Inl e \<Rightarrow> Inl e
           | Inr bs' \<Rightarrow> Inr (b' # bs')))"

subsection \<open>Truck arrival: loading, unloading, next leg\<close>

text \<open>
  The block that every leg change of \<open>on_truck_arrival\<close> repeats: project the truck's
  cell and the target onto the road network, search a path between the projections and
  append the target cell itself.  \<open>None\<close> when the target has no road nearby or the
  search finds no path (the two guards \<open>if target_road:\<close> and \<open>if path:\<close>).
\<close>

definition plan_route :: "game \<Rightarrow> truck \<Rightarrow> coord \<Rightarrow> error + coord list option" where
  "plan_route g t target =
     (let cur_road = (case find_nearest_road_to_cell (road_grid g) (current_cell t) of
                        None \<Rightarrow> current_cell t
                      | Some r \<Rightarrow> r) in
      case find_nearest_road_to_cell (road_grid g) target of
        None \<Rightarrow> Inr None
      | Some target_road \<Rightarrow>
          (case find_path_on_roads (road_grid g) cur_road target_road of
             Inl e \<Rightarrow> Inl e
           | Inr path \<Rightarrow> if path = [] then Inr None else Inr (Some (path @ [target]))))"

text \<open>\<open>load_amount = min(5.0, amount_available, t.cargo_capacity - t.cargo_amount)\<close>.\<close>

definition load_amount_of :: "real \<Rightarrow> truck \<Rightarrow> real" where
  "load_amount_of amount_available t =
     min 5 (min amount_available (cargo_capacity t - cargo_amount t))"

definition load_from_base :: "string \<Rightarrow> game \<Rightarrow> truck \<Rightarrow> game \<times> truck" where
  "load_from_base res g t =
     (let amount_available = dict_get (resources g) res 0;
          load_amount = load_amount_of amount_available t in
      if 0 < load_amount then
        (g\<lparr>resources := (resources g)(res \<mapsto> max 0 (amount_available - load_amount))\<rparr>,
         t\<lparr>cargo_amount := cargo_amount t + load_amount\<rparr>)
      else (g, t))"

definition load_stone_from_base :: "game \<Rightarrow> truck \<Rightarrow> game \<times> truck" where
  "load_stone_from_base g t =
     (let amount_available = dict_get (resources g) ''stone'' 0;
          load_amount = load_amount_of amount_available t in
      if 0 < load_amount then
        (let g1 = g\<lparr>resources := (resources g)(''stone'' \<mapsto> max 0 (amount_available - load_amount))\<rparr>;
             t1 = t\<lparr>cargo_amount := cargo_amount t + load_amount\<rparr> in
         case dest_cell t of
           None \<Rightarrow> (g1, t1)
         | Some dest \<Rightarrow>
             (case get_building_at_cell g dest of
                None \<Rightarrow> (g1, t1)
              | Some dest_building \<Rightarrow>
                  if btype dest_building = refinery
                  then (g1, t1\<lparr>refinery_loop := Some True, stone_delivered := Some load_amount\<rparr>)
                  else (g1, t1)))
      else (g, t))"

definition load_from_building ::
  "building_type \<Rightarrow> string \<Rightarrow> coord \<Rightarrow> building \<Rightarrow> game \<Rightarrow> truck \<Rightarrow> game \<times> truck" where
  "load_from_building bt res src_cell b g t =
     (let amount_available = (if btype b = bt then dict_get (storage b) res 0 else 0);
          load_amount = load_amount_of amount_available t in
      if 0 < load_amount then
        (g\<lparr>buildings :=
             (if btype b = bt
              then update_building_at src_cell
                     (\<lambda>b. b\<lparr>storage := (storage b)(res \<mapsto>
                              max 0 (dict_get (storage b) res 0 - load_amount))\<rparr>)
                     (buildings g)
              else buildings g)\<rparr>,
         t\<lparr>cargo_amount := cargo_amount t + load_amount\<rparr>)
      else (g, t))"

text \<open>The block \<open># Now go to destination\<close>; its two branches (base or another building) do the same.\<close>

definition head_to_dest :: "game \<Rightarrow> truck \<Rightarrow> error + game \<times> truck" where
  "head_to_dest g t =
     (case dest_cell t of
        None \<Rightarrow> Inr (g, t)
      | Some dest \<Rightarrow>
          (case plan_route g t dest of
             Inl e \<Rightarrow> Inl e
           | Inr None \<Rightarrow> Inr (g, t)
           | Inr (Some path2) \<Rightarrow> Inr (g, t\<lparr>path_cells := path2, state := to_dest\<rparr>)))"

definition load_stone_from_quarry :: "coord \<Rightarrow> building \<Rightarrow> game \<Rightarrow> truck \<Rightarrow> error + game \<times> truck" where
  "load_stone_from_quarry src_cell b g t =
     (let amount_available = (if btype b = quarry then dict_get (storage b) ''stone'' 0 else 0);
          load_amount = load_amount_of amount_available t;
          g1 = fst (load_from_building quarry ''stone'' src_cell b g t);
          t1 = snd (load_from_building quarry ''stone'' src_cell b g t) in
      if 0 < load_amount \<and> refinery_loop t = Some True then
        (case dest_cell t of
           None \<Rightarrow> head_to_dest g1 t1
         | Some dest \<Rightarrow>
             (case plan_route g1 t1 dest of
                Inl e \<Rightarrow> Inl e
              | Inr None \<Rightarrow> head_to_dest g1 t1
              | Inr (Some path2) \<Rightarrow> Inr (g1, t1\<lparr>path_cells := path2, state := to_dest\<rparr>)))
      else head_to_dest g1 t1)"

definition infer_cargo_type :: "building \<Rightarrow> string" where
  "infer_cargo_type b = (case btype b of lumber \<Rightarrow> ''wood'' | quarry \<Rightarrow> ''stone'' | refinery \<Rightarrow> ''bmats'')"

definition arrival_to_source :: "game \<Rightarrow> truck \<Rightarrow> error + game \<times> truck" where
  "arrival_to_source g t =
     (case saved_source t of
        None \<Rightarrow> Inr (g, t\<lparr>state := idle\<rparr>)
      | Some src_cell \<Rightarrow>
          if current_cell t = src_cell then
            (case get_building_at_cell g src_cell of
               None \<Rightarrow> Inr (g, t\<lparr>state := idle\<rparr>)
             | Some src_building \<Rightarrow>
                 if cargo_type t = Some ''wood'' then
                   (if src_cell = base_cell g
                    then head_to_dest (fst (load_from_base ''wood'' g t)) (snd (load_from_base ''wood'' g t))
                    else head_to_dest (fst (load_from_building lumber ''wood'' src_cell src_building g t))
                                      (snd (load_from_building lumber ''wood'' src_cell src_building g t)))
                 else if cargo_type t = Some ''stone'' then
                   (if src_cell = base_cell g
                    then head_to_dest (fst (load_stone_from_base g t)) (snd (load_stone_from_base g t))
                    else load_stone_from_quarry src_cell src_building g t)
                 else if cargo_type t = Some ''bmats'' then
                   (if src_cell = base_cell g
                    then head_to_dest (fst (load_from_base ''bmats'' g t)) (snd (load_from_base ''bmats'' g t))
                    else head_to_dest (fst (load_from_building refinery ''bmats'' src_cell src_building g t))
                                      (snd (load_from_building refinery ''bmats'' src_cell src_building g t)))
                 else head_to_dest g (t\<lparr>cargo_type := Some (infer_cargo_type src_building)\<rparr>))
          else Inr (g, t))"

text \<open>\<open>delivered = int(t.cargo_amount); self.resources[t.cargo_type] += delivered; t.cargo_amount = 0.0\<close>.\<close>

definition deliver_to_pool :: "string \<Rightarrow> game \<Rightarrow> truck \<Rightarrow> error + game \<times> truck" where
  "deliver_to_pool res g t =
     (case dict_add (resources g) res (real_of_int (py_int (cargo_amount t))) of
        Inl e \<Rightarrow> Inl e
      | Inr pool \<Rightarrow> Inr (g\<lparr>resources := pool\<rparr>, t\<lparr>cargo_amount := 0\<rparr>))"

definition go_idle :: "truck \<Rightarrow> truck" where
  "go_idle t = t\<lparr>state := idle, cargo_type := None, dest_cell := None\<rparr>"

text \<open>
  The tail \<open># Repeat or return to idle\<close>.  A saved cell is a tuple and so truthy whenever
  it is not \<open>None\<close>; a saved resource is truthy when it is a non-empty string.
\<close>

definition repeat_or_idle :: "game \<Rightarrow> truck \<Rightarrow> error + game \<times> truck" where
  "repeat_or_idle g t =
     (case saved_source t of
        None \<Rightarrow> Inr (g, go_idle t)
      | Some saved_src \<Rightarrow>
          (case saved_dest t of
             None \<Rightarrow> Inr (g, go_idle t)
           | Some saved_dst \<Rightarrow>
               (case saved_resource t of
                  None \<Rightarrow> Inr (g, go_idle t)
                | Some saved_res \<Rightarrow>
                    if repeat_enabled t \<and> saved_res \<noteq> [] then
                      (case plan_route g t saved_src of
                         Inl e \<Rightarrow> Inl e
                       | Inr None \<Rightarrow> Inr (g, go_idle t)
                       | Inr (Some path_back) \<Rightarrow>
                           Inr (g, t\<lparr>path_cells := path_back, state := to_source,
                                     cargo_type := Some saved_res, dest_cell := Some saved_dst\<rparr>))
                    else Inr (g, go_idle t))))"

definition unload_at_base :: "game \<Rightarrow> truck \<Rightarrow> error + game \<times> truck" where
  "unload_at_base g t =
     (case cargo_type t of
        None \<Rightarrow> repeat_or_idle g t
      | Some res \<Rightarrow>
          if res \<in> {''wood'', ''stone'', ''bmats''} \<and> 0 < cargo_amount t then
            (case deliver_to_pool res g t of
               Inl e \<Rightarrow> Inl e
             | Inr (g1, t1) \<Rightarrow> repeat_or_idle g1 t1)
          else repeat_or_idle g t)"

definition unload_at_building :: "coord \<Rightarrow> game \<Rightarrow> truck \<Rightarrow> error + game \<times> truck" where
  "unload_at_building dc g t =
     (case get_building_at_cell g dc of
        None \<Rightarrow> repeat_or_idle g t
      | Some dest_building \<Rightarrow>
          if cargo_type t = Some ''stone'' \<and> btype dest_building = refinery \<and> 0 < cargo_amount t then
            (let delivered = real_of_int (py_int (cargo_amount t));
                 g1 = g\<lparr>buildings := update_building_at dc
                         (\<lambda>b. b\<lparr>storage := (storage b)(''stone'' \<mapsto>
                                  dict_get (storage b) ''stone'' 0 + delivered)\<rparr>)
                         (buildings g)\<rparr>;
                 t1 = t\<lparr>cargo_amount := 0\<rparr> in
             if 0 < delivered then
               Inr (g1, t1\<lparr>state := waiting_for_bmats, waiting_timer := Some 0,
                           waiting_target := Some delivered\<rparr>)
             else repeat_or_idle g1 t1)
          else
            (case cargo_type t of
               None \<Rightarrow> repeat_or_idle g t
             | Some res \<Rightarrow>
                 if res \<in> {''wood'', ''bmats''} \<and> 0 < cargo_amount t then
                   (case deliver_to_pool res g t of
                      Inl e \<Rightarrow> Inl e
                    | Inr (g1, t1) \<Rightarrow> repeat_or_idle g1 t1)
                 else repeat_or_idle g t))"

text \<open>The \<open>else\<close> branch of the destination check: a refinery-loop truck with no stone yet.\<close>

definition load_stone_on_the_way :: "game \<Rightarrow> truck \<Rightarrow> error + game \<times> truck" where
  "load_stone_on_the_way g t =
     (if refinery_loop t = Some True \<and> cargo_type t = Some ''stone'' \<and> cargo_amount t = 0 then
        (if is_cell_in_base_area g (current_cell t) then
           (let amount_available = dict_get (resources g) ''stone'' 0;
                load_amount = load_amount_of amount_available t in
            if 0 < load_amount then
              repeat_or_idle
                (g\<lparr>resources := (resources g)(''stone'' \<mapsto> max 0 (amount_available - load_amount))\<rparr>)
                (t\<lparr>cargo_amount := cargo_amount t + load_amount\<rparr>)
            else Inr (g, t\<lparr>state := idle\<rparr>))
         else repeat_or_idle g t)
      else repeat_or_idle g t)"

definition arrival_to_dest :: "game \<Rightarrow> truck \<Rightarrow> error + game \<times> truck" where
  "arrival_to_dest g t =
     (case dest_cell t of
        None \<Rightarrow> Inr (g, t\<lparr>state := idle\<rparr>)
      | Some dc \<Rightarrow>
          if current_cell t = dc then
            (if dc = base_cell g then unload_at_base g t else unload_at_building dc g t)
          else load_stone_on_the_way g t)"

text \<open>
  The statements of the \<open>waiting_for_bmats\<close> branch that follow its timer update: the
  check of the refinery's bmats against \<open>waiting_target\<close> (default 5.0) and the withdrawal.
\<close>

definition collect_bmats :: "game \<Rightarrow> truck \<Rightarrow> error + game \<times> truck" where
  "collect_bmats g t =
     (case dest_cell t of
        None \<Rightarrow> Inr (g, t)
      | Some dc \<Rightarrow>
          (case get_building_at_cell g dc of
             None \<Rightarrow> Inr (g, t)
           | Some dest_building \<Rightarrow>
               if btype dest_building = refinery then
                 (let bmat_available = dict_get (storage dest_building) ''bmats'' 0;
                      target = (case waiting_target t of None \<Rightarrow> 5 | Some w \<Rightarrow> w) in
                  if target \<le> bmat_available then
                    (let t1 = t\<lparr>cargo_type := Some ''bmats'', cargo_amount := target\<rparr>;
                         g1 = g\<lparr>buildings := update_building_at dc
                                 (\<lambda>b. b\<lparr>storage := (storage b)(''bmats'' \<mapsto> bmat_available - target)\<rparr>)
                                 (buildings g)\<rparr> in
                     case plan_route g1 t1 (base_cell g) of
                       Inl e \<Rightarrow> Inl e
                     | Inr None \<Rightarrow> Inr (g1, t1\<lparr>state := idle\<rparr>)
                     | Inr (Some path_to_base) \<Rightarrow>
                         Inr (g1, t1\<lparr>path_cells := path_to_base, state := to_dest,
                                     dest_cell := Some (base_cell g)\<rparr>))
                  else Inr (g, t))
               else Inr (g, t)))"

text \<open>
  \<open>on_truck_arrival(self, t)\<close>.  Its \<open>waiting_for_bmats\<close> branch starts with
  \<open>t.waiting_timer += dt\<close>, and \<open>dt\<close> is neither a parameter nor a local nor a global of
  the module: the statement raises \<open>NameError\<close> before the check of the refinery's bmats
  (\<open>collect_bmats\<close>) is reached.
\<close>

definition on_truck_arrival :: "game \<Rightarrow> truck \<Rightarrow> error + game \<times> truck" where
  "on_truck_arrival g t =
     (case state t of
        to_source \<Rightarrow> arrival_to_source g t
      | waiting_for_bmats \<Rightarrow> Inl NameError
      | to_dest \<Rightarrow> arrival_to_dest g t
      | _ \<Rightarrow> Inr (g, t))"

subsection \<open>The tick\<close>

definition cell_center :: "coord \<Rightarrow> real \<times> real" where
  "cell_center c =
     (real_of_int (fst c * GRID_SIZE + GRID_SIZE div 2),
      real_of_int (snd c * GRID_SIZE + GRID_SIZE div 2))"

definition update_truck :: "game \<Rightarrow> truck \<Rightarrow> real \<Rightarrow> error + game \<times> truck" where
  "update_truck g t dt =
     (case path_cells t of
        [] \<Rightarrow> Inr (g, t)
      | next_cell # rest \<Rightarrow>
          (let target_px = cell_center next_cell;
               vx = fst target_px - fst (position_px t);
               vy = snd target_px - snd (position_px t);
               dist = sqrt (vx * vx + vy * vy) in
           if dist < 1 / 1000 then
             (let t1 = t\<lparr>position_px := target_px, current_cell := next_cell, path_cells := rest\<rparr> in
              if rest = [] then on_truck_arrival g t1 else Inr (g, t1))
           else
             (let ux = vx / dist; uy = vy / dist; step = speed_px_per_sec t * dt in
              if dist \<le> step then Inr (g, t\<lparr>position_px := target_px\<rparr>)
              else Inr (g, t\<lparr>position_px :=
                              (fst (position_px t) + ux * step, snd (position_px t) + uy * step)\<rparr>))))"

text \<open>
  The loop \<open>for t in self.trucks: self.update_truck(t, dt)\<close>: each truck sees the pool and
  the buildings as the trucks before it left them.
\<close>

fun update_trucks :: "game \<Rightarrow> real \<Rightarrow> truck list \<Rightarrow> error + game \<times> truck list" where
  "update_trucks g dt [] = Inr (g, [])"
| "update_trucks g dt (t # ts) =
     (case update_truck g t dt of
        Inl e \<Rightarrow> Inl e
      | Inr (g1, t1) \<Rightarrow>
          (case update_trucks g1 dt ts of
             Inl e \<Rightarrow> Inl e
           | Inr (g2, ts1) \<Rightarrow> Inr (g2, t1 # ts1)))"

definition update :: "game \<Rightarrow> real \<Rightarrow> error + game" where
  "update g dt =
     (case produce_all g dt (buildings g) of
        Inl e \<Rightarrow> Inl e
      | Inr bs \<Rightarrow>
          (case update_trucks (g\<lparr>buildings := bs\<rparr>) dt (trucks g) of
             Inl e \<Rightarrow> Inl e
           | Inr (g1, ts) \<Rightarrow> Inr (g1\<lparr>trucks := ts\<rparr>)))"

subsection \<open>Player commands\<close>

definition paint_cell :: "game \<Rightarrow> coord \<Rightarrow> game" where
  "paint_cell g c =
     (if c \<in> trees g \<or> c \<in> stones g \<or> c \<in> roads g then g
      else if dict_get (resources g) ''bmats'' 0 \<le> 0 then g
      else g\<lparr>roads := insert c (roads g),
             road_grid := AList.update c 1 (road_grid g),
             resources := (resources g)(''bmats'' \<mapsto> dict_get (resources g) ''bmats'' 0 - 1)\<rparr>)"

text \<open>\<open>can_place_lumber\<close>, \<open>can_place_quarry\<close> and \<open>can_place_refinery\<close> have the same body.\<close>

definition can_place_lumber :: "game \<Rightarrow> coord \<Rightarrow> bool" where
  "can_place_lumber g c =
     (if c \<in> trees g \<or> c \<in> stones g then False
      else if c \<in> roads g then False
      else if \<exists>b \<in> set (buildings g). cell b = c then False
      else if is_cell_adjacent_to_base g c then False
      else True)"

definition can_place_quarry :: "game \<Rightarrow> coord \<Rightarrow> bool" where
  "can_place_quarry g c =
     (if c \<in> trees g \<or> c \<in> stones g then False
      else if c \<in> roads g then False
      else if \<exists>b \<in> set (buildings g). cell b = c then False
      else if is_cell_adjacent_to_base g c then False
      else True)"

definition can_place_refinery :: "game \<Rightarrow> coord \<Rightarrow> bool" where
  "can_place_refinery g c =
     (if c \<in> trees g \<or> c \<in> stones g then False
      else if c \<in> roads g then False
      else if \<exists>b \<in> set (buildings g). cell b = c then False
      else if is_cell_adjacent_to_base g c then False
      else True)"

definition count_in_radius :: "coord set \<Rightarrow> coord \<Rightarrow> int \<Rightarrow> nat" where
  "count_in_radius nodes center radius =
     card {n \<in> nodes. (fst n - fst center) * (fst n - fst center)
                      + (snd n - snd center) * (snd n - snd center) \<le> radius * radius}"

definition count_trees_in_radius :: "game \<Rightarrow> coord \<Rightarrow> int \<Rightarrow> nat" where
  "count_trees_in_radius g center radius = count_in_radius (trees g) center radius"

definition count_stones_in_radius :: "game \<Rightarrow> coord \<Rightarrow> int \<Rightarrow> nat" where
  "count_stones_in_radius g center radius = count_in_radius (stones g) center radius"

definition place_lumber_camp :: "game \<Rightarrow> coord \<Rightarrow> game" where
  "place_lumber_camp g c =
     (if \<not> can_place_lumber g c then g
      else g\<lparr>buildings := buildings g @
                [\<lparr>btype = lumber, cell = c, radius_cells = 5,
                  production_rate_per_sec = real (count_trees_in_radius g c 5) * (2 / 10),
                  storage = [''wood'' \<mapsto> 0], conversion_timer = None\<rparr>],
             road_grid := AList.update c 1 (road_grid g)\<rparr>)"

definition place_quarry :: "game \<Rightarrow> coord \<Rightarrow> game" where
  "place_quarry g c =
     (if \<not> can_place_quarry g c then g
      else g\<lparr>buildings := buildings g @
                [\<lparr>btype = quarry, cell = c, radius_cells = 5,
                  production_rate_per_sec = real (count_stones_in_radius g c 5) * (2 / 10),
                  storage = [''stone'' \<mapsto> 0], conversion_timer = None\<rparr>],
             road_grid := AList.update c 1 (road_grid g)\<rparr>)"

definition place_refinery :: "game \<Rightarrow> coord \<Rightarrow> game" where
  "place_refinery g c =
     (if \<not> can_place_refinery g c then g
      else g\<lparr>buildings := buildings g @
                [\<lparr>btype = refinery, cell = c, radius_cells = 0,
                  production_rate_per_sec = 2 / 10,
                  storage = [''stone'' \<mapsto> 0, ''bmats'' \<mapsto> 0], conversion_timer = None\<rparr>],
             road_grid := AList.update c 1 (road_grid g)\<rparr>)"

text \<open>\<open>del self.buildings[i]\<close> for the first building at the cell.\<close>

fun remove_building_at :: "coord \<Rightarrow> building list \<Rightarrow> building list" where
  "remove_building_at c [] = []"
| "remove_building_at c (b # bs) = (if cell b = c then bs else b # remove_building_at c bs)"

text \<open>The body of the loop of \<open>execute_bulldoze\<close>, for one highlighted cell.\<close>

definition bulldoze_cell :: "game \<Rightarrow> coord \<Rightarrow> error + game" where
  "bulldoze_cell g c =
     (if c \<in> roads g then
        (case dict_add (resources g) ''bmats'' 1 of
           Inl e \<Rightarrow> Inl e
         | Inr pool \<Rightarrow>
             Inr (g\<lparr>roads := roads g - {c},
                    road_grid := AList.update c 0 (road_grid g),
                    resources := pool\<rparr>))
      else
        (case get_building_at_cell g c of
           None \<Rightarrow> Inr g
         | Some b \<Rightarrow>
             Inr (g\<lparr>road_grid := (if map_of (road_grid g) (cell b) \<noteq> None
                                   then AList.update (cell b) 0 (road_grid g)
                                   else road_grid g),
                    buildings := remove_building_at c (buildings g)\<rparr>)))"

text \<open>
  \<open>execute_bulldoze\<close>: the highlighted cells are a set; the list is the order in which the
  loop meets them.
\<close>

fun execute_bulldoze :: "game \<Rightarrow> coord list \<Rightarrow> error + game" where
  "execute_bulldoze g [] = Inr g"
| "execute_bulldoze g (c # cs) =
     (case bulldoze_cell g c of
        Inl e \<Rightarrow> Inl e
      | Inr g1 \<Rightarrow> execute_bulldoze g1 cs)"

definition spawn_truck_at_base :: "game \<Rightarrow> game" where
  "spawn_truck_at_base g =
     g\<lparr>trucks := trucks g @
          [\<lparr>truck_id = next_truck_id g,
            position_px = cell_center (base_cell g),
            current_cell = base_cell g,
            path_cells = [],
            speed_px_per_sec = real_of_int GRID_SIZE * (12 / 10),
            state = idle,
            cargo_type = None,
            cargo_amount = 0,
            cargo_capacity = 20,
            repeat_enabled = False,
            saved_source = None,
            saved_dest = None,
            saved_resource = None,
            dest_cell = None,
            refinery_loop = None,
            stone_delivered = None,
            waiting_timer = None,
            waiting_target = None\<rparr>],
       next_truck_id := next_truck_id g + 1\<rparr>"

definition get_truck_cost :: "game \<Rightarrow> int" where
  "get_truck_cost g = 10 + 15 * trucks_built g"

definition build_new_truck :: "game \<Rightarrow> error + game" where
  "build_new_truck g =
     (let cost = real_of_int (get_truck_cost g) in
      if cost \<le> dict_get (resources g) ''bmats'' 0 then
        (case dict_add (resources g) ''bmats'' (- cost) of
           Inl e \<Rightarrow> Inl e
         | Inr pool \<Rightarrow>
             Inr ((spawn_truck_at_base (g\<lparr>resources := pool\<rparr>))
                    \<lparr>trucks_built := trucks_built g + 1\<rparr>))
      else Inr g)"

text \<open>The state after \<open>Game.__init__\<close>, given what the random generator chose.\<close>

definition new_game :: "coord \<Rightarrow> coord set \<Rightarrow> coord set \<Rightarrow> game" where
  "new_game bc ts ss =
     (spawn_truck_at_base (spawn_truck_at_base
        \<lparr>roads = {},
         road_grid = [((fst bc, snd bc), 1), ((fst bc, snd bc + 1), 1),
                      ((fst bc + 1, snd bc), 1), ((fst bc + 1, snd bc + 1), 1)],
         trees = ts,
         stones = ss,
         resources = [''oil'' \<mapsto> 0, ''steel'' \<mapsto> 0, ''wood'' \<mapsto> 0, ''stone'' \<mapsto> 0, ''bmats'' \<mapsto> 10],
         buildings = [],
         trucks = [],
         next_truck_id = 1,
         base_cell = bc,
         trucks_built = 0\<rparr>))
     \<lparr>trucks_built := 2\<rparr>"

definition in_base_area_of :: "coord \<Rightarrow> coord \<Rightarrow> bool" where
  "in_base_area_of bc c =
     (fst bc \<le> fst c \<and> fst c \<le> fst bc + 1 \<and> snd bc \<le> snd c \<and> snd c \<le> snd bc + 1)"

text \<open>What \<open>__init__\<close> and \<open>_generate_resources_around_view\<close> guarantee of the random choices.\<close>

definition generated :: "coord \<Rightarrow> coord set \<Rightarrow> coord set \<Rightarrow> bool" where
  "generated bc ts ss =
     (2 \<le> fst bc \<and> fst bc \<le> 29 \<and> 2 \<le> snd bc \<and> snd bc \<le> 21 \<and>
      finite ts \<and> finite ss \<and>
      (\<forall>c \<in> ts. \<not> in_base_area_of bc c) \<and>
      (\<forall>c \<in> ss. \<not> in_base_area_of bc c \<and> c \<notin> ts))"

subsection \<open>Assignments\<close>

definition get_truck_by_id :: "game \<Rightarrow> int \<Rightarrow> truck option" where
  "get_truck_by_id g i = find (\<lambda>t. truck_id t = i) (trucks g)"

text \<open>The truck returned by \<open>get_truck_by_id\<close> is mutated in place.\<close>

fun update_truck_with_id :: "int \<Rightarrow> (truck \<Rightarrow> truck) \<Rightarrow> truck list \<Rightarrow> truck list" where
  "update_truck_with_id i f [] = []"
| "update_truck_with_id i f (t # ts) =
     (if truck_id t = i then f t # ts else t # update_truck_with_id i f ts)"

definition world_pos_to_cell :: "real \<times> real \<Rightarrow> coord" where
  "world_pos_to_cell pos = (py_int (fst pos) div GRID_SIZE, py_int (snd pos) div GRID_SIZE)"

text \<open>The eight assignments that every successful branch of \<open>start_assignment\<close> makes.\<close>

definition assign_leg ::
  "coord list \<Rightarrow> truck_state \<Rightarrow> string \<Rightarrow> coord \<Rightarrow> coord \<Rightarrow> coord \<Rightarrow> truck \<Rightarrow> truck" where
  "assign_leg path st resource start_cell source dest t =
     t\<lparr>path_cells := path, state := st, cargo_type := Some resource,
       current_cell := start_cell, dest_cell := Some dest,
       saved_source := Some source, saved_dest := Some dest, saved_resource := Some resource\<rparr>"

definition mark_refinery_loop :: "game \<Rightarrow> coord \<Rightarrow> truck \<Rightarrow> truck" where
  "mark_refinery_loop g dest t =
     (case get_building_at_cell g dest of
        None \<Rightarrow> t
      | Some dest_building \<Rightarrow>
          if btype dest_building = refinery then t\<lparr>refinery_loop := Some True\<rparr> else t)"

definition start_assignment :: "game \<Rightarrow> int \<Rightarrow> coord \<Rightarrow> coord \<Rightarrow> string \<Rightarrow> error + game" where
  "start_assignment g tid source dest resource =
     (case get_truck_by_id g tid of
        None \<Rightarrow> Inr g
      | Some truck \<Rightarrow>
          (case find_nearest_road_to_cell (road_grid g) (world_pos_to_cell (position_px truck)) of
             None \<Rightarrow> Inr g
           | Some start_cell \<Rightarrow>
          (case find_nearest_road_to_cell (road_grid g) source of
             None \<Rightarrow> Inr g
           | Some source_road \<Rightarrow>
          (case find_nearest_road_to_cell (road_grid g) dest of
             None \<Rightarrow> Inr g
           | Some dest_road \<Rightarrow>
             if source = base_cell g \<and> resource = ''stone'' then
               (if \<not> is_cell_in_base_area g (current_cell truck) then
                  (case find_nearest_road_to_cell (road_grid g) (base_cell g) of
                     None \<Rightarrow> Inr g
                   | Some base_road \<Rightarrow>
                       (case find_path_on_roads (road_grid g) start_cell base_road of
                          Inl e \<Rightarrow> Inl e
                        | Inr path_to_base \<Rightarrow>
                            if path_to_base = [] then Inr g
                            else Inr (g\<lparr>trucks := update_truck_with_id tid
                                   (\<lambda>t. (assign_leg (path_to_base @ [base_cell g]) to_source
                                           resource start_cell source dest t)
                                         \<lparr>refinery_loop := Some True\<rparr>)
                                   (trucks g)\<rparr>)))
                else
                  (case find_nearest_road_to_cell (road_grid g) dest of
                     None \<Rightarrow> Inr g
                   | Some refinery_road \<Rightarrow>
                       (case find_path_on_roads (road_grid g) start_cell refinery_road of
                          Inl e \<Rightarrow> Inl e
                        | Inr path_to_refinery \<Rightarrow>
                            if path_to_refinery = [] then Inr g
                            else Inr (g\<lparr>trucks := update_truck_with_id tid
                                   (\<lambda>t. (assign_leg (path_to_refinery @ [dest]) to_dest
                                           resource start_cell source dest t)
                                         \<lparr>refinery_loop := Some True\<rparr>)
                                   (trucks g)\<rparr>))))
             else
               (let normal =
                  (case find_path_on_roads (road_grid g) start_cell source_road of
                     Inl e \<Rightarrow> Inl e
                   | Inr path1 \<Rightarrow>
                       if path1 = [] then Inr g
                       else Inr (g\<lparr>trucks := update_truck_with_id tid
                              (\<lambda>t. (let t1 = assign_leg path1 to_source resource start_cell source dest t;
                                         t2 = (if source = base_cell g \<and> resource = ''stone''
                                               then mark_refinery_loop g dest t1 else t1)
                                     in if resource = ''stone'' \<and> dest \<noteq> base_cell g
                                        then mark_refinery_loop g dest t2 else t2))
                              (trucks g)\<rparr>)) in
                if \<bar>fst source - fst (base_cell g)\<bar> + \<bar>snd source - snd (base_cell g)\<bar> \<le> 3
                   \<and> source_road = dest_road then
                  (case find_nearest_road_to_cell (road_grid g) (base_cell g) of
                     None \<Rightarrow> Inr g
                   | Some base_road \<Rightarrow>
                       if base_road \<noteq> source_road then
                         (case find_path_on_roads (road_grid g) start_cell base_road of
                            Inl e \<Rightarrow> Inl e
                          | Inr path1 \<Rightarrow>
                              if path1 = [] then normal
                              else Inr (g\<lparr>trucks := update_truck_with_id tid
                                     (assign_leg (path1 @ [source]) to_source
                                        resource start_cell source dest)
                                     (trucks g)\<rparr>))
                       else Inr g)
                else normal)))))"

text \<open>\<open>TruckSelector.reset_truck\<close> (src/truck_selector.py) and the repeat toggle of the confirm panel.\<close>

definition reset_truck :: "truck \<Rightarrow> truck" where
  "reset_truck t =
     t\<lparr>state := idle, path_cells := [], cargo_type := None, cargo_amount := 0,
       saved_source := None, saved_dest := None, saved_resource := None, dest_cell := None\<rparr>"

definition toggle_repeat :: "truck \<Rightarrow> truck" where
  "toggle_repeat t = t\<lparr>repeat_enabled := \<not> repeat_enabled t\<rparr>"

subsection \<open>Reachable states\<close>

datatype command =
    PaintCell coord
  | PlaceLumber coord
  | PlaceQuarry coord
  | PlaceRefinery coord
  | ExecuteBulldoze "coord list"
  | BuildNewTruck
  | StartAssignment int coord coord string
  | ToggleRepeat int
  | ResetTruck int
  | Tick real

fun step :: "game \<Rightarrow> command \<Rightarrow> error + game" where
  "step g (PaintCell c) = Inr (paint_cell g c)"
| "step g (PlaceLumber c) = Inr (place_lumber_camp g c)"
| "step g (PlaceQuarry c) = Inr (place_quarry g c)"
| "step g (PlaceRefinery c) = Inr (place_refinery g c)"
| "step g (ExecuteBulldoze cs) = execute_bulldoze g cs"
| "step g BuildNewTruck = build_new_truck g"
| "step g (StartAssignment tid source dest resource) = start_assignment g tid source dest resource"
| "step g (ToggleRepeat tid) = Inr (g\<lparr>trucks := update_truck_with_id tid toggle_repeat (trucks g)\<rparr>)"
| "step g (ResetTruck tid) = Inr (g\<lparr>trucks := update_truck_with_id tid reset_truck (trucks g)\<rparr>)"
| "step g (Tick dt) = update g dt"

inductive reachable :: "game \<Rightarrow> bool" where
  reachable_init: "generated bc ts ss \<Longrightarrow> reachable (new_game bc ts ss)"
| reachable_step: "reachable g \<Longrightarrow> step g cmd = Inr g' \<Longrightarrow> reachable g'"

section \<open>Concrete worlds\<close>

definition start_world :: game where
  "start_world = new_game (5, 5) {(10, 10)} {(12, 3)}"

lemma generated_start: "generated (5, 5) {(10, 10)} {(12, 3)}"
  by (simp add: generated_def in_base_area_of_def)

lemma reachable_start: "reachable start_world"
  unfolding start_world_def by (rule reachable_init) (rule generated_start)

definition road_on_camp :: game where
  "road_on_camp = paint_cell (place_lumber_camp start_world (9, 5)) (9, 5)"

lemma start_world_fields:
  "roads start_world = {}"
  "trees start_world = {(10, 10)}"
  "stones start_world = {(12, 3)}"
  "buildings start_world = []"
  "base_cell start_world = (5, 5)"
  "resources start_world ''bmats'' = Some 10"
  by (simp_all add: start_world_def new_game_def spawn_truck_at_base_def)

lemma place_ok: "can_place_lumber start_world (9, 5)"
  by (simp add: can_place_lumber_def start_world_fields is_cell_adjacent_to_base_def)

text \<open>
  Claim C9 (no cell holds more than one of a tree, a stone, a road and a building; every
  placement validates against the other kinds).  \<open>paint_cell\<close> checks trees, stones and
  roads but not buildings, although the three \<open>can_place\<close> validators refuse a cell that
  holds a road.  From the start world, placing a lumber camp on a free cell and then
  painting a road on the same cell is accepted: the reachable state holds a road and a
  building on one cell, while the same two commands in the other order are refused.
\<close>

theorem road_painted_over_building:
  "reachable road_on_camp \<and> (9, 5) \<in> roads road_on_camp \<and>
   (\<exists>b \<in> set (buildings road_on_camp). cell b = (9, 5)) \<and>
   can_place_lumber start_world (9, 5) \<and> \<not> can_place_lumber (paint_cell start_world (9, 5)) (9, 5)"
proof -
  have r1: "reachable (place_lumber_camp start_world (9, 5))"
    by (rule reachable_step[OF reachable_start, of "PlaceLumber (9, 5)"]) simp
  have r2: "reachable road_on_camp"
    unfolding road_on_camp_def
    by (rule reachable_step[OF r1, of "PaintCell (9, 5)"]) simp
  have "(9, 5) \<in> roads road_on_camp"
    by (simp add: road_on_camp_def paint_cell_def place_lumber_camp_def place_ok
        start_world_fields dict_get_def)
  moreover have "\<exists>b \<in> set (buildings road_on_camp). cell b = (9, 5)"
    by (simp add: road_on_camp_def paint_cell_def place_lumber_camp_def place_ok
        start_world_fields dict_get_def)
  moreover have "\<not> can_place_lumber (paint_cell start_world (9, 5)) (9, 5)"
    by (simp add: can_place_lumber_def paint_cell_def start_world_fields dict_get_def)
  ultimately show ?thesis using r2 place_ok by blast
qed

lemmas grid_eval = find_path_on_roads_def expand_def visit_def neighbors4.simps is_driveable_def dict_get_def

lemma is_driveable_update_0: "\<not> is_driveable (AList.update c 0 rg) c"
  by (simp add: is_driveable_def dict_get_def update_conv')

lemma reachable_road_on_camp: "reachable road_on_camp"
proof -
  have r1: "reachable (place_lumber_camp start_world (9, 5))"
    by (rule reachable_step[OF reachable_start, of "PlaceLumber (9, 5)"]) simp
  show ?thesis
    unfolding road_on_camp_def
    by (rule reachable_step[OF r1, of "PaintCell (9, 5)"]) simp
qed

text \<open>
  What \<open>execute_bulldoze\<close> does to a road cell: the cell leaves the road set, the
  build-material entry of the pool grows by exactly 1 and the driveable flag is cleared;
  the buildings are not consulted.
\<close>

lemma bulldoze_road_cell:
  assumes "c \<in> roads g" and "resources g ''bmats'' = Some n"
  shows "\<exists>g'. execute_bulldoze g [c] = Inr g' \<and>
              roads g' = roads g - {c} \<and>
              resources g' = (resources g)(''bmats'' \<mapsto> n + 1) \<and>
              \<not> is_driveable (road_grid g') c \<and>
              buildings g' = buildings g"
  using assms by (simp add: bulldoze_cell_def dict_add_def is_driveable_update_0)

lemma road_on_camp_fields:
  "roads road_on_camp = {(9, 5)}"
  "resources road_on_camp ''bmats'' = Some 9"
  "map cell (buildings road_on_camp) = [(9, 5)]"
  by (simp_all add: road_on_camp_def paint_cell_def place_lumber_camp_def place_ok
        start_world_fields dict_get_def)

lemma road_on_camp_driveable: "is_driveable (road_grid road_on_camp) (9, 5)"
  by (simp add: road_on_camp_def paint_cell_def place_lumber_camp_def place_ok
        start_world_fields dict_get_def is_driveable_def update_conv')

text \<open>
  Claim C4 (bulldozing a road cell removes the road, returns one build material and clears
  the cell's driveable flag only if no facility also occupies the cell).  Every placement
  marks the facility's cell as driveable so that trucks can enter it, but
  \<open>execute_bulldoze\<close> writes \<open>road_grid[cell] = 0\<close> for every road cell without looking at
  the buildings.  In the reachable state with a road painted over a lumber camp the cell
  is driveable; bulldozing it removes the road and returns the build material, the camp
  stays, and the camp's cell is no longer driveable.
\<close>

theorem bulldoze_road_under_building:
  "reachable road_on_camp \<and> is_driveable (road_grid road_on_camp) (9, 5) \<and>
   (\<exists>g'. execute_bulldoze road_on_camp [(9, 5)] = Inr g' \<and> reachable g' \<and>
         roads g' = {} \<and> resources g' ''bmats'' = Some 10 \<and>
         (\<exists>b \<in> set (buildings g'). cell b = (9, 5)) \<and>
         \<not> is_driveable (road_grid g') (9, 5))"
proof -
  have b: "\<exists>b \<in> set (buildings road_on_camp). cell b = (9, 5)"
    using road_on_camp_fields(3) by (cases "buildings road_on_camp") auto
  obtain g' where g': "execute_bulldoze road_on_camp [(9, 5)] = Inr g'"
      "roads g' = roads road_on_camp - {(9, 5)}"
      "resources g' = (resources road_on_camp)(''bmats'' \<mapsto> 9 + 1)"
      "\<not> is_driveable (road_grid g') (9, 5)"
      "buildings g' = buildings road_on_camp"
    using bulldoze_road_cell[of "(9, 5)" road_on_camp 9] road_on_camp_fields by auto
  have "reachable g'"
    by (rule reachable_step[OF reachable_road_on_camp, of "ExecuteBulldoze [(9, 5)]"])
       (simp only: step.simps g'(1))
  moreover have "roads g' = {}" using g'(2) road_on_camp_fields(1) by simp
  moreover have "resources g' ''bmats'' = Some 10" using g'(3) by simp
  ultimately show ?thesis
    using g'(1,4,5) b reachable_road_on_camp road_on_camp_driveable by auto
qed

definition waiting_truck :: truck where
  "waiting_truck =
     \<lparr>truck_id = 1, position_px = cell_center (9, 5), current_cell = (9, 5), path_cells = [],
      speed_px_per_sec = real_of_int GRID_SIZE * (12 / 10), state = waiting_for_bmats,
      cargo_type = Some ''stone'', cargo_amount = 0, cargo_capacity = 20,
      repeat_enabled = False, saved_source = Some (5, 5), saved_dest = Some (9, 5),
      saved_resource = Some ''stone'', dest_cell = Some (9, 5), refinery_loop = Some True,
      stone_delivered = None, waiting_timer = Some 0, waiting_target = Some 5\<rparr>"

definition waiting_world :: game where
  "waiting_world =
     \<lparr>roads = {(7, 5), (8, 5)},
      road_grid = [((5, 5), 1), ((5, 6), 1), ((6, 5), 1), ((6, 6), 1),
                   ((9, 5), 1), ((7, 5), 1), ((8, 5), 1)],
      trees = {(10, 10)}, stones = {(12, 3)},
      resources = [''oil'' \<mapsto> 0, ''steel'' \<mapsto> 0, ''wood'' \<mapsto> 0, ''stone'' \<mapsto> 0, ''bmats'' \<mapsto> 8],
      buildings = [\<lparr>btype = refinery, cell = (9, 5), radius_cells = 0,
                    production_rate_per_sec = 2 / 10,
                    storage = [''stone'' \<mapsto> 0, ''bmats'' \<mapsto> 5],
                    conversion_timer = Some 0\<rparr>],
      trucks = [waiting_truck],
      next_truck_id = 2, base_cell = (5, 5), trucks_built = 2\<rparr>"

lemma waiting_world_connected:
  "is_cell_connected_to_base_by_roads waiting_world (9, 5) = Inr True"
  by (simp add: is_cell_connected_to_base_by_roads_def find_nearest_road_to_cell_def
      find_nearest_road_to_cell_within_def waiting_world_def grid_eval)

text \<open>
  Claim C1 (a waiting truck collects \<open>waiting_target\<close> bmats on the next tick once the
  refinery holds them).  A truck enters \<open>waiting_for_bmats\<close> with an empty path, and
  \<open>update_truck\<close> only acts on a truck whose path is not empty: the tick leaves the world
  as it is, for every \<open>dt\<close>, although the refinery holds the 5 bmats the truck waits for.
  Calling \<open>on_truck_arrival\<close> on the waiting truck would raise \<open>NameError\<close>.
\<close>

theorem waiting_truck_never_collects:
  "update waiting_world dt = Inr waiting_world \<and>
   state (hd (trucks waiting_world)) = waiting_for_bmats \<and>
   dest_cell (hd (trucks waiting_world)) = Some (9, 5) \<and>
   waiting_target (hd (trucks waiting_world)) = Some 5 \<and>
   map (\<lambda>b. (btype b, storage b ''bmats'')) (buildings waiting_world) = [(refinery, Some 5)] \<and>
   on_truck_arrival waiting_world (hd (trucks waiting_world)) = Inl NameError"
proof -
  have "produce waiting_world dt (hd (buildings waiting_world)) = Inr (hd (buildings waiting_world))"
    using waiting_world_connected
    by (simp add: produce_def waiting_world_def dict_get_def)
  then have "update waiting_world dt = Inr waiting_world"
    by (simp add: update_def waiting_world_def update_truck_def waiting_truck_def)
  then show ?thesis
    by (simp add: waiting_world_def waiting_truck_def on_truck_arrival_def)
qed

section \<open>Refinery conversion over time\<close>




lemma connected_cong:
  "road_grid g' = road_grid g \<Longrightarrow> base_cell g' = base_cell g \<Longrightarrow>
   is_cell_connected_to_base_by_roads g' c = is_cell_connected_to_base_by_roads g c"
  unfolding is_cell_connected_to_base_by_roads_def by (simp split: option.splits)









definition refinery_roads :: road_grid where
  "refinery_roads = [((5, 5), 1), ((5, 6), 1), ((6, 5), 1), ((6, 6), 1),
                     ((9, 5), 1), ((7, 5), 1), ((8, 5), 1)]"





section \<open>The repeat leg\<close>

lemma plan_route_cong:
  "road_grid g' = road_grid g \<Longrightarrow> current_cell t' = current_cell t \<Longrightarrow>
   plan_route g' t' c = plan_route g t c"
  by (simp add: plan_route_def cong: option.case_cong sum.case_cong)

lemma plan_route_last:
  "plan_route g t c = Inr (Some p) \<Longrightarrow> p \<noteq> [] \<and> last p = c"
  by (auto simp: plan_route_def Let_def split: option.splits sum.splits if_splits)

text \<open>
  What the tail of the \<open>to_dest\<close> arrival does with a truck \<open>t\<close> in world \<open>g\<close>, as a relation
  to the truck \<open>t'\<close> it leaves: a new \<open>to_source\<close> leg when repeating is enabled, the saved
  trip is present and a route to the saved source is found; idle otherwise.
\<close>

definition repeat_ready :: "game \<Rightarrow> truck \<Rightarrow> coord \<Rightarrow> coord \<Rightarrow> string \<Rightarrow> coord list \<Rightarrow> bool" where
  "repeat_ready g t src dst res path =
     (repeat_enabled t \<and> saved_source t = Some src \<and> saved_dest t = Some dst \<and>
      saved_resource t = Some res \<and> res \<noteq> [] \<and> plan_route g t src = Inr (Some path))"

definition requeued :: "game \<Rightarrow> truck \<Rightarrow> truck \<Rightarrow> bool" where
  "requeued g t t' =
     ((\<forall>src dst res path. repeat_ready g t src dst res path \<longrightarrow>
         state t' = to_source \<and> path_cells t' = path \<and> last path = src \<and>
         cargo_type t' = Some res \<and> dest_cell t' = Some dst) \<and>
      ((\<forall>src dst res path. \<not> repeat_ready g t src dst res path) \<longrightarrow>
         state t' = idle \<and> cargo_type t' = None \<and> dest_cell t' = None))"

lemma requeued_cong:
  assumes "road_grid g1 = road_grid g" "current_cell t1 = current_cell t"
    "repeat_enabled t1 = repeat_enabled t" "saved_source t1 = saved_source t"
    "saved_dest t1 = saved_dest t" "saved_resource t1 = saved_resource t"
  shows "requeued g1 t1 t' = requeued g t t'"
  using assms plan_route_cong[OF assms(1,2)] by (simp add: requeued_def repeat_ready_def)

lemma repeat_or_idle_requeued:
  assumes "repeat_or_idle g t = Inr (g', t')"
  shows "requeued g t t'"
proof -
  have go: "state (go_idle t) = idle \<and> cargo_type (go_idle t) = None \<and> dest_cell (go_idle t) = None"
    by (simp add: go_idle_def)
  show ?thesis
  proof (cases "\<exists>src dst res path. repeat_ready g t src dst res path")
    case True
    then obtain src dst res path where r: "repeat_ready g t src dst res path" by blast
    then have "t' = t\<lparr>path_cells := path, state := to_source,
                      cargo_type := Some res, dest_cell := Some dst\<rparr>"
      using assms by (simp add: repeat_or_idle_def repeat_ready_def)
    moreover have "last path = src"
      using r plan_route_last[of g t src path] by (simp add: repeat_ready_def)
    ultimately show ?thesis using r unfolding requeued_def repeat_ready_def by auto
  next
    case False
    then have "t' = go_idle t"
      using assms unfolding repeat_or_idle_def repeat_ready_def
      by (auto split: option.splits sum.splits if_splits)
    then show ?thesis using False go unfolding requeued_def by simp
  qed
qed

lemma deliver_to_pool_frame:
  "deliver_to_pool res g t = Inr (g1, t1) \<Longrightarrow>
   road_grid g1 = road_grid g \<and> t1 = t\<lparr>cargo_amount := 0\<rparr>"
  by (auto simp: deliver_to_pool_def split: sum.splits)

lemma unload_at_base_requeued:
  assumes "unload_at_base g t = Inr (g', t')"
  shows "requeued g t t'"
proof (cases "\<exists>res. cargo_type t = Some res \<and> res \<in> {''wood'', ''stone'', ''bmats''} \<and> 0 < cargo_amount t")
  case True
  then obtain res where res: "cargo_type t = Some res" "res \<in> {''wood'', ''stone'', ''bmats''}"
      "0 < cargo_amount t" by blast
  then obtain g1 t1 where d: "deliver_to_pool res g t = Inr (g1, t1)"
      and r: "repeat_or_idle g1 t1 = Inr (g', t')"
    using assms by (auto simp: unload_at_base_def split: sum.splits)
  have "requeued g1 t1 t'" using r by (rule repeat_or_idle_requeued)
  then show ?thesis
    using deliver_to_pool_frame[OF d] requeued_cong[of g1 g t1 t t'] by simp
next
  case False
  then have "repeat_or_idle g t = Inr (g', t')"
    using assms by (auto simp: unload_at_base_def split: option.splits if_splits)
  then show ?thesis by (rule repeat_or_idle_requeued)
qed

lemma unload_at_building_requeued:
  assumes "unload_at_building dc g t = Inr (g', t')" and "state t' \<noteq> waiting_for_bmats"
  shows "requeued g t t'"
proof -
  have base: "\<And>g1 t1. repeat_or_idle g1 t1 = Inr (g', t') \<Longrightarrow> road_grid g1 = road_grid g \<Longrightarrow>
      current_cell t1 = current_cell t \<Longrightarrow> repeat_enabled t1 = repeat_enabled t \<Longrightarrow>
      saved_source t1 = saved_source t \<Longrightarrow> saved_dest t1 = saved_dest t \<Longrightarrow>
      saved_resource t1 = saved_resource t \<Longrightarrow> requeued g t t'"
    using repeat_or_idle_requeued requeued_cong by blast
  show ?thesis
  proof (cases "get_building_at_cell g dc")
    case None
    then show ?thesis using assms(1) base[of g t] by (simp add: unload_at_building_def)
  next
    case (Some db)
    show ?thesis
    proof (cases "cargo_type t = Some ''stone'' \<and> btype db = refinery \<and> 0 < cargo_amount t")
      case True
      let ?g1 = "g\<lparr>buildings := update_building_at dc
                         (\<lambda>b. b\<lparr>storage := (storage b)(''stone'' \<mapsto>
                                  dict_get (storage b) ''stone'' 0 + real_of_int (py_int (cargo_amount t)))\<rparr>)
                         (buildings g)\<rparr>"
      have "repeat_or_idle ?g1 (t\<lparr>cargo_amount := 0\<rparr>) = Inr (g', t')"
        using assms Some True
        by (auto simp: unload_at_building_def Let_def split: if_splits)
      then show ?thesis using base[of ?g1 "t\<lparr>cargo_amount := 0\<rparr>"] by simp
    next
      case False
      show ?thesis
      proof (cases "\<exists>res. cargo_type t = Some res \<and> res \<in> {''wood'', ''bmats''} \<and> 0 < cargo_amount t")
        case True
        then obtain res where res: "cargo_type t = Some res" "res \<in> {''wood'', ''bmats''}"
            "0 < cargo_amount t" by blast
        then obtain g1 t1 where d: "deliver_to_pool res g t = Inr (g1, t1)"
            and r: "repeat_or_idle g1 t1 = Inr (g', t')"
          using assms(1) Some False
          by (auto simp: unload_at_building_def split: sum.splits)
        show ?thesis using base[OF r] deliver_to_pool_frame[OF d] by simp
      next
        case no: False
        then have "repeat_or_idle g t = Inr (g', t')"
          using assms(1) Some False
          by (auto simp: unload_at_building_def split: option.splits if_splits)
        then show ?thesis by (rule repeat_or_idle_requeued)
      qed
    qed
  qed
qed

text \<open>
  Claim C7, as amended.  When a truck in state \<open>to_dest\<close> has emptied its path on its
  destination cell and the arrival does not put it into \<open>waiting_for_bmats\<close>: if
  repeating is enabled, the saved source, destination and resource are present and a
  route from the truck to the saved source is found, the truck gets a new \<open>to_source\<close> leg
  whose path ends at the saved source (cargo type the saved resource, destination the
  saved destination); in every other case it becomes idle with cargo type and
  destination cleared.
\<close>

theorem arrival_requeues_or_idles:
  assumes "state t = to_dest" and "dest_cell t = Some d" and "current_cell t = d"
    and "on_truck_arrival g t = Inr (g', t')" and "state t' \<noteq> waiting_for_bmats"
  shows "requeued g t t'"
proof (cases "d = base_cell g")
  case True
  then have "unload_at_base g t = Inr (g', t')"
    using assms by (simp add: on_truck_arrival_def arrival_to_dest_def)
  then show ?thesis by (rule unload_at_base_requeued)
next
  case False
  then have "unload_at_building d g t = Inr (g', t')"
    using assms by (simp add: on_truck_arrival_def arrival_to_dest_def)
  then show ?thesis using assms(5) by (rule unload_at_building_requeued)
qed


definition returning_truck :: truck where
  "returning_truck =
     \<lparr>truck_id = 1, position_px = cell_center (5, 5), current_cell = (5, 5), path_cells = [],
      speed_px_per_sec = real_of_int GRID_SIZE * (12 / 10), state = to_dest,
      cargo_type = Some ''wood'', cargo_amount = 5, cargo_capacity = 20,
      repeat_enabled = True, saved_source = Some (9, 5), saved_dest = Some (5, 5),
      saved_resource = Some ''wood'', dest_cell = Some (5, 5), refinery_loop = None,
      stone_delivered = None, waiting_timer = None, waiting_target = None\<rparr>"

definition camp_world :: game where
  "camp_world =
     \<lparr>roads = {(7, 5), (8, 5)},
      road_grid = refinery_roads,
      trees = {(10, 10)}, stones = {(12, 3)},
      resources = [''oil'' \<mapsto> 0, ''steel'' \<mapsto> 0, ''wood'' \<mapsto> 0, ''stone'' \<mapsto> 0, ''bmats'' \<mapsto> 8],
      buildings = [\<lparr>btype = lumber, cell = (9, 5), radius_cells = 5,
                    production_rate_per_sec = 2 / 10,
                    storage = [''wood'' \<mapsto> 35], conversion_timer = None\<rparr>],
      trucks = [returning_truck],
      next_truck_id = 2, base_cell = (5, 5), trucks_built = 2\<rparr>"

text \<open>The same world after the two road cells between base and camp have been bulldozed.\<close>

definition cut_world :: game where
  "cut_world =
     camp_world\<lparr>roads := {},
        road_grid := AList.update (8, 5) 0 (AList.update (7, 5) 0 refinery_roads),
        resources := [''oil'' \<mapsto> 0, ''steel'' \<mapsto> 0, ''wood'' \<mapsto> 0, ''stone'' \<mapsto> 0, ''bmats'' \<mapsto> 10]\<rparr>"

lemmas world_eval =
  find_nearest_road_to_cell_def find_nearest_road_to_cell_within_def refinery_roads_def
  plan_route_def grid_eval

theorem arrival_requeues_or_idles_witness:
  "\<exists>g' t'. on_truck_arrival camp_world returning_truck = Inr (g', t') \<and>
          state t' = to_source \<and> last (path_cells t') = (9, 5) \<and>
          cargo_type t' = Some ''wood'' \<and> dest_cell t' = Some (5, 5)"
proof -
  have "\<exists>g1 t1. on_truck_arrival camp_world returning_truck = Inr (g1, t1) \<and>
          state t1 \<noteq> waiting_for_bmats"
    by (simp add: on_truck_arrival_def arrival_to_dest_def unload_at_base_def deliver_to_pool_def
        dict_add_def py_int_def repeat_or_idle_def go_idle_def returning_truck_def camp_world_def
        world_eval)
  then obtain g1 t1 where a: "on_truck_arrival camp_world returning_truck = Inr (g1, t1)"
      "state t1 \<noteq> waiting_for_bmats" by blast
  have "requeued camp_world returning_truck t1"
    using arrival_requeues_or_idles[of returning_truck "(5, 5)" camp_world g1 t1] a
    by (simp add: returning_truck_def)
  moreover have "repeat_ready camp_world returning_truck (9, 5) (5, 5) ''wood''
                   [(5, 5), (6, 5), (7, 5), (8, 5), (9, 5), (9, 5)]"
    by (simp add: repeat_ready_def returning_truck_def camp_world_def world_eval)
  ultimately have "state t1 = to_source \<and> path_cells t1 = [(5, 5), (6, 5), (7, 5), (8, 5), (9, 5), (9, 5)] \<and>
          cargo_type t1 = Some ''wood'' \<and> dest_cell t1 = Some (5, 5)"
    unfolding requeued_def by blast
  then show ?thesis using a(1) by simp
qed

text \<open>
  Claim C7 as stated gives every truck with repeating enabled and a saved trip a new
  \<open>to_source\<close> leg.  After the road between base and camp has been bulldozed, the truck
  that unloads at the base with repeating enabled and its trip saved finds no route back
  and becomes idle.
\<close>

theorem repeat_without_route_goes_idle:
  "\<exists>g' t'. on_truck_arrival cut_world returning_truck = Inr (g', t') \<and>
          state t' = idle \<and> cargo_type t' = None \<and>
          repeat_enabled returning_truck \<and> saved_source returning_truck = Some (9, 5) \<and>
          saved_dest returning_truck = Some (5, 5) \<and> saved_resource returning_truck = Some ''wood'' \<and>
          state returning_truck = to_dest \<and> dest_cell returning_truck = Some (5, 5) \<and>
          current_cell returning_truck = (5, 5)"
  by (simp add: on_truck_arrival_def arrival_to_dest_def unload_at_base_def deliver_to_pool_def
      dict_add_def py_int_def repeat_or_idle_def go_idle_def returning_truck_def cut_world_def
      camp_world_def world_eval)

section \<open>Production is gated by connectivity\<close>

lemma find_path_total: "\<exists>p. find_path_on_roads g s t = Inr p"
proof (cases "s = t")
  case True
  then show ?thesis by (simp add: find_path_on_roads_def)
next
  case False
  show ?thesis
  proof (cases "\<exists>q. connects g q s t")
    case True
    then show ?thesis using find_path_reachable[OF _ False] by blast
  next
    case no: False
    then show ?thesis using find_path_unreachable by blast
  qed
qed

lemma connected_total: "\<exists>v. is_cell_connected_to_base_by_roads g c = Inr v"
proof -
  have "\<And>s t. \<exists>v. (case find_path_on_roads (road_grid g) s t of
                      Inl e \<Rightarrow> Inl e | Inr path \<Rightarrow> Inr (0 < length path)) = Inr v"
    using find_path_total[of "road_grid g"] by (metis sum.simps(6))
  then show ?thesis
    unfolding is_cell_connected_to_base_by_roads_def by (auto split: option.splits)
qed

lemma produce_total: "\<exists>b'. produce g dt b = Inr b'"
  using connected_total[of g "cell b"]
  by (auto simp: produce_def Let_def split: building_type.splits)

lemma produce_disconnected:
  "is_cell_connected_to_base_by_roads g (cell b) = Inr False \<Longrightarrow> produce g dt b = Inr b"
  by (simp add: produce_def)

lemma produce_all_nth:
  "\<exists>bs'. produce_all g dt bs = Inr bs' \<and> length bs' = length bs \<and>
          (\<forall>i < length bs. produce g dt (bs ! i) = Inr (bs' ! i))"
proof (induction bs)
  case Nil
  then show ?case by simp
next
  case (Cons b bs)
  obtain b' where b': "produce g dt b = Inr b'" using produce_total by blast
  obtain bs' where bs': "produce_all g dt bs = Inr bs'" "length bs' = length bs"
      "\<forall>i < length bs. produce g dt (bs ! i) = Inr (bs' ! i)"
    using Cons.IH by blast
  have "\<forall>i < length (b # bs). produce g dt ((b # bs) ! i) = Inr ((b' # bs') ! i)"
    using b' bs'(3) by (auto simp: nth_Cons split: nat.splits)
  then show ?case using b' bs'(1,2) by simp
qed

subsection \<open>What a truck's arrival leaves alone\<close>

text \<open>
  The pool holds the three resources that trucks carry.  \<open>Game.__init__\<close> creates the keys
  and nothing removes them.
\<close>

definition pool_keys :: "game \<Rightarrow> bool" where
  "pool_keys g =
     (resources g ''wood'' \<noteq> None \<and> resources g ''stone'' \<noteq> None \<and> resources g ''bmats'' \<noteq> None)"

text \<open>
  \<open>kept_at c g g'\<close>: the road grid, the base and every building that stands on cell \<open>c\<close>
  are in \<open>g'\<close> as they were in \<open>g\<close>.
\<close>

definition kept_at :: "coord \<Rightarrow> game \<Rightarrow> game \<Rightarrow> bool" where
  "kept_at c g g' =
     (road_grid g' = road_grid g \<and> base_cell g' = base_cell g \<and>
      length (buildings g') = length (buildings g) \<and>
      (\<forall>i < length (buildings g). cell (buildings g ! i) = c \<longrightarrow> buildings g' ! i = buildings g ! i))"

lemma kept_at_refl: "kept_at c g g"
  by (simp add: kept_at_def)

lemma kept_at_trans: "kept_at c g g1 \<Longrightarrow> kept_at c g1 g2 \<Longrightarrow> kept_at c g g2"
  by (simp add: kept_at_def)

lemma kept_at_pool: "kept_at c g (g\<lparr>resources := r\<rparr>)"
  by (simp add: kept_at_def)

lemma update_building_at_length: "length (update_building_at c f bs) = length bs"
  by (induction bs) simp_all

lemma update_building_at_other:
  "i < length bs \<Longrightarrow> cell (bs ! i) \<noteq> c \<Longrightarrow> update_building_at c f bs ! i = bs ! i"
proof (induction bs arbitrary: i)
  case Nil
  then show ?case by simp
next
  case (Cons b bs)
  then show ?case by (cases i) auto
qed

lemma kept_at_update_building:
  "c' \<noteq> c \<Longrightarrow> kept_at c g (g\<lparr>buildings := update_building_at c' f (buildings g)\<rparr>)"
  by (simp add: kept_at_def update_building_at_length update_building_at_other)

lemma pool_keys_upd:
  "pool_keys g \<Longrightarrow> pool_keys (g\<lparr>resources := (resources g)(k \<mapsto> v)\<rparr>)"
  "pool_keys (g\<lparr>buildings := bs\<rparr>) = pool_keys g"
  "pool_keys (g\<lparr>trucks := ts\<rparr>) = pool_keys g"
  by (simp_all add: pool_keys_def)

text \<open>\<open>calm c g g'\<close>: what an arrival on another cell than \<open>c\<close> guarantees of the world it leaves.\<close>

definition calm :: "coord \<Rightarrow> game \<Rightarrow> game \<Rightarrow> bool" where
  "calm c g g' = (pool_keys g' \<and> kept_at c g g')"

lemma calm_refl: "pool_keys g \<Longrightarrow> calm c g g"
  by (simp add: calm_def kept_at_refl)

lemma calm_trans: "calm c g g1 \<Longrightarrow> calm c g1 g2 \<Longrightarrow> calm c g g2"
  unfolding calm_def using kept_at_trans by blast

lemma calm_load_from_base:
  "pool_keys g \<Longrightarrow> calm c g (fst (load_from_base res g t))"
  by (simp add: calm_def load_from_base_def Let_def pool_keys_upd kept_at_pool kept_at_refl)

lemma calm_load_stone_from_base:
  "pool_keys g \<Longrightarrow> calm c g (fst (load_stone_from_base g t))"
  by (simp add: calm_def load_stone_from_base_def Let_def pool_keys_upd kept_at_pool kept_at_refl
      split: option.splits)

lemma calm_load_from_building:
  "pool_keys g \<Longrightarrow> sc \<noteq> c \<Longrightarrow> calm c g (fst (load_from_building bt res sc b g t))"
  by (simp add: calm_def load_from_building_def Let_def pool_keys_upd kept_at_update_building
      kept_at_refl)

lemma plan_route_total: "\<exists>r. plan_route g t target = Inr r"
proof (cases "find_nearest_road_to_cell (road_grid g) target")
  case None
  then show ?thesis by (simp add: plan_route_def)
next
  case (Some tr)
  obtain p where "find_path_on_roads (road_grid g)
      (case find_nearest_road_to_cell (road_grid g) (current_cell t) of
         None \<Rightarrow> current_cell t | Some r \<Rightarrow> r) tr = Inr p"
    using find_path_total by blast
  then show ?thesis using Some by (simp add: plan_route_def)
qed

lemma head_to_dest_total: "\<exists>t'. head_to_dest g t = Inr (g, t')"
proof (cases "dest_cell t")
  case None
  then show ?thesis by (simp add: head_to_dest_def)
next
  case (Some d)
  obtain r where "plan_route g t d = Inr r" using plan_route_total by blast
  then show ?thesis using Some by (cases r) (simp_all add: head_to_dest_def)
qed

lemma calm_load_stone_from_quarry:
  assumes "pool_keys g" and "sc \<noteq> c"
  shows "\<exists>g' t'. load_stone_from_quarry sc b g t = Inr (g', t') \<and> calm c g g'"
proof -
  let ?g1 = "fst (load_from_building quarry ''stone'' sc b g t)"
  let ?t1 = "snd (load_from_building quarry ''stone'' sc b g t)"
  have c1: "calm c g ?g1" using assms by (rule calm_load_from_building)
  obtain t2 where h: "head_to_dest ?g1 ?t1 = Inr (?g1, t2)" using head_to_dest_total by blast
  have "\<exists>t'. load_stone_from_quarry sc b g t = Inr (?g1, t')"
  proof (cases "dest_cell t")
    case None
    then show ?thesis using h by (simp add: load_stone_from_quarry_def Let_def)
  next
    case (Some d)
    obtain r where r: "plan_route ?g1 ?t1 d = Inr r" using plan_route_total by blast
    show ?thesis using Some r h
      by (cases r) (simp_all add: load_stone_from_quarry_def Let_def)
  qed
  then show ?thesis using c1 by blast
qed

lemma calm_head_to_dest:
  "calm c g g1 \<Longrightarrow> \<exists>g' t'. head_to_dest g1 t1 = Inr (g', t') \<and> calm c g g'"
  using head_to_dest_total[of g1 t1] by blast

lemma calm_arrival_to_source:
  assumes "pool_keys g" and "current_cell t \<noteq> c"
  shows "\<exists>g' t'. arrival_to_source g t = Inr (g', t') \<and> calm c g g'"
proof (cases "saved_source t")
  case None
  then show ?thesis using assms(1) by (simp add: arrival_to_source_def calm_refl)
next
  case (Some sc)
  show ?thesis
  proof (cases "current_cell t = sc")
    case False
    then show ?thesis using assms(1) Some by (simp add: arrival_to_source_def calm_refl)
  next
    case True
    then have sc: "sc \<noteq> c" using assms(2) by simp
    show ?thesis
    proof (cases "get_building_at_cell g sc")
      case None
      then show ?thesis using assms(1) Some True by (simp add: arrival_to_source_def calm_refl)
    next
      case b: (Some b)
      note h = calm_head_to_dest[OF calm_load_from_base[OF assms(1)]]
        calm_head_to_dest[OF calm_load_stone_from_base[OF assms(1)]]
        calm_head_to_dest[OF calm_load_from_building[OF assms(1) sc]]
        calm_head_to_dest[OF calm_refl[OF assms(1)]]
        calm_load_stone_from_quarry[OF assms(1) sc]
      show ?thesis
        using Some True b h unfolding arrival_to_source_def
        by simp
    qed
  qed
qed

lemma repeat_or_idle_total: "\<exists>t'. repeat_or_idle g t = Inr (g, t')"
proof -
  have "\<And>s. \<exists>t'. (case plan_route g t s of Inl e \<Rightarrow> Inl e
                   | Inr None \<Rightarrow> Inr (g, go_idle t)
                   | Inr (Some p) \<Rightarrow> Inr (g, f p)) = Inr (g, t')" for f
  proof -
    fix s
    obtain r where "plan_route g t s = Inr r" using plan_route_total by blast
    then show "\<exists>t'. (case plan_route g t s of Inl e \<Rightarrow> Inl e
                   | Inr None \<Rightarrow> Inr (g, go_idle t)
                   | Inr (Some p) \<Rightarrow> Inr (g, f p)) = Inr (g, t')"
      by (cases r) simp_all
  qed
  then show ?thesis
    unfolding repeat_or_idle_def by (simp split: option.splits)
qed

lemma calm_repeat_or_idle:
  "calm c g g1 \<Longrightarrow> \<exists>g' t'. repeat_or_idle g1 t1 = Inr (g', t') \<and> calm c g g'"
  using repeat_or_idle_total[of g1 t1] by blast

lemma calm_deliver_to_pool:
  assumes "pool_keys g" and "res \<in> {''wood'', ''stone'', ''bmats''}"
  shows "\<exists>g' t'. deliver_to_pool res g t = Inr (g', t') \<and> calm c g g'"
proof -
  obtain x where x: "resources g res = Some x"
    using assms by (auto simp: pool_keys_def)
  then have "deliver_to_pool res g t =
      Inr (g\<lparr>resources := (resources g)(res \<mapsto> x + real_of_int (py_int (cargo_amount t)))\<rparr>,
           t\<lparr>cargo_amount := 0\<rparr>)"
    by (simp add: deliver_to_pool_def dict_add_def)
  then show ?thesis
    using assms(1) by (simp add: calm_def pool_keys_upd kept_at_pool)
qed

lemma calm_deliver_then_repeat:
  assumes "pool_keys g" and "res \<in> {''wood'', ''stone'', ''bmats''}"
  shows "\<exists>g' t'. (case deliver_to_pool res g t of Inl e \<Rightarrow> Inl e
                  | Inr (g1, t1) \<Rightarrow> repeat_or_idle g1 t1) = Inr (g', t') \<and> calm c g g'"
proof -
  obtain g1 t1 where d: "deliver_to_pool res g t = Inr (g1, t1)" "calm c g g1"
    using calm_deliver_to_pool[OF assms] by blast
  obtain g' t' where "repeat_or_idle g1 t1 = Inr (g', t')" "calm c g g'"
    using calm_repeat_or_idle[OF d(2)] by blast
  then show ?thesis using d(1) by simp
qed

lemma calm_unload_at_base:
  assumes "pool_keys g"
  shows "\<exists>g' t'. unload_at_base g t = Inr (g', t') \<and> calm c g g'"
proof (cases "cargo_type t")
  case None
  then show ?thesis
    using calm_repeat_or_idle[OF calm_refl[OF assms]] by (simp add: unload_at_base_def)
next
  case (Some res)
  show ?thesis
  proof (cases "res \<in> {''wood'', ''stone'', ''bmats''} \<and> 0 < cargo_amount t")
    case True
    then have "unload_at_base g t = (case deliver_to_pool res g t of Inl e \<Rightarrow> Inl e
                  | Inr (g1, t1) \<Rightarrow> repeat_or_idle g1 t1)"
      using Some by (simp add: unload_at_base_def)
    then show ?thesis using calm_deliver_then_repeat[OF assms, of res] True by simp
  next
    case False
    then have "unload_at_base g t = repeat_or_idle g t"
      using Some by (auto simp: unload_at_base_def)
    then show ?thesis using calm_repeat_or_idle[OF calm_refl[OF assms]] by simp
  qed
qed

lemma calm_unload_at_building:
  assumes "pool_keys g" and "dc \<noteq> c"
  shows "\<exists>g' t'. unload_at_building dc g t = Inr (g', t') \<and> calm c g g'"
proof (cases "get_building_at_cell g dc")
  case None
  then show ?thesis
    using calm_repeat_or_idle[OF calm_refl[OF assms(1)]] by (simp add: unload_at_building_def)
next
  case (Some db)
  show ?thesis
  proof (cases "cargo_type t = Some ''stone'' \<and> btype db = refinery \<and> 0 < cargo_amount t")
    case True
    let ?g1 = "g\<lparr>buildings := update_building_at dc
                       (\<lambda>b. b\<lparr>storage := (storage b)(''stone'' \<mapsto>
                                dict_get (storage b) ''stone'' 0 + real_of_int (py_int (cargo_amount t)))\<rparr>)
                       (buildings g)\<rparr>"
    have g1: "calm c g ?g1"
      using assms by (simp add: calm_def pool_keys_upd kept_at_update_building)
    obtain g' t' where r: "repeat_or_idle ?g1 (t\<lparr>cargo_amount := 0\<rparr>) = Inr (g', t')" "calm c g g'"
      using calm_repeat_or_idle[OF g1] by blast
    show ?thesis
    proof (cases "0 < real_of_int (py_int (cargo_amount t))")
      case pos: True
      then have "unload_at_building dc g t =
          Inr (?g1, t\<lparr>cargo_amount := 0, state := waiting_for_bmats, waiting_timer := Some 0,
                 waiting_target := Some (real_of_int (py_int (cargo_amount t)))\<rparr>)"
        using Some True by (simp add: unload_at_building_def Let_def)
      then show ?thesis using g1 by simp
    next
      case neg: False
      then have "unload_at_building dc g t = repeat_or_idle ?g1 (t\<lparr>cargo_amount := 0\<rparr>)"
        using Some True by (simp add: unload_at_building_def Let_def)
      then show ?thesis using r by simp
    qed
  next
    case False
    show ?thesis
    proof (cases "cargo_type t")
      case None
      then have "unload_at_building dc g t = repeat_or_idle g t"
        using Some False by (simp add: unload_at_building_def)
      then show ?thesis using calm_repeat_or_idle[OF calm_refl[OF assms(1)]] by simp
    next
      case res: (Some res)
      show ?thesis
      proof (cases "res \<in> {''wood'', ''bmats''} \<and> 0 < cargo_amount t")
        case True
        then have "unload_at_building dc g t = (case deliver_to_pool res g t of Inl e \<Rightarrow> Inl e
                  | Inr (g1, t1) \<Rightarrow> repeat_or_idle g1 t1)"
          using Some False res by (auto simp: unload_at_building_def)
        moreover have "res \<in> {''wood'', ''stone'', ''bmats''}" using True by auto
        ultimately show ?thesis using calm_deliver_then_repeat[OF assms(1), of res] by simp
      next
        case nd: False
        then have "unload_at_building dc g t = repeat_or_idle g t"
          using Some False res by (auto simp: unload_at_building_def)
        then show ?thesis using calm_repeat_or_idle[OF calm_refl[OF assms(1)]] by simp
      qed
    qed
  qed
qed

lemma calm_load_stone_on_the_way:
  assumes "pool_keys g"
  shows "\<exists>g' t'. load_stone_on_the_way g t = Inr (g', t') \<and> calm c g g'"
proof -
  let ?a = "dict_get (resources g) ''stone'' 0"
  let ?g1 = "g\<lparr>resources := (resources g)(''stone'' \<mapsto> max 0 (?a - load_amount_of ?a t))\<rparr>"
  let ?t1 = "t\<lparr>cargo_amount := cargo_amount t + load_amount_of ?a t\<rparr>"
  have g1: "calm c g ?g1" using assms by (simp add: calm_def pool_keys_upd kept_at_pool)
  have "load_stone_on_the_way g t = repeat_or_idle g t \<or>
        load_stone_on_the_way g t = repeat_or_idle ?g1 ?t1 \<or>
        load_stone_on_the_way g t = Inr (g, t\<lparr>state := idle\<rparr>)"
    by (simp add: load_stone_on_the_way_def Let_def)
  then show ?thesis
    using calm_repeat_or_idle[OF calm_refl[OF assms], of t]
      calm_repeat_or_idle[OF g1, of ?t1] calm_refl[OF assms, of c]
    by (elim disjE) simp_all
qed

lemma calm_arrival_to_dest:
  assumes "pool_keys g" and "current_cell t \<noteq> c"
  shows "\<exists>g' t'. arrival_to_dest g t = Inr (g', t') \<and> calm c g g'"
proof (cases "dest_cell t")
  case None
  then show ?thesis using assms(1) by (simp add: arrival_to_dest_def calm_refl)
next
  case (Some dc)
  show ?thesis
  proof (cases "current_cell t = dc")
    case True
    then have "dc \<noteq> c" using assms(2) by simp
    then show ?thesis
      using Some True calm_unload_at_base[OF assms(1)] calm_unload_at_building[OF assms(1)]
      by (simp add: arrival_to_dest_def)
  next
    case False
    then show ?thesis
      using Some calm_load_stone_on_the_way[OF assms(1)] by (simp add: arrival_to_dest_def)
  qed
qed

lemma calm_on_truck_arrival:
  assumes "pool_keys g" and "current_cell t \<noteq> c" and "state t \<noteq> waiting_for_bmats"
  shows "\<exists>g' t'. on_truck_arrival g t = Inr (g', t') \<and> calm c g g'"
  using assms calm_arrival_to_source[OF assms(1,2)] calm_arrival_to_dest[OF assms(1,2)]
  by (cases "state t") (simp_all add: on_truck_arrival_def calm_refl)

text \<open>
  The condition under which \<open>update_truck\<close> calls \<open>on_truck_arrival\<close>: the truck stands on
  the centre of the last cell of its path.
\<close>

definition arrives_now :: "truck \<Rightarrow> bool" where
  "arrives_now t =
     (case path_cells t of
        [c] \<Rightarrow> sqrt ((fst (cell_center c) - fst (position_px t)) * (fst (cell_center c) - fst (position_px t))
                   + (snd (cell_center c) - snd (position_px t)) * (snd (cell_center c) - snd (position_px t)))
               < 1 / 1000
      | _ \<Rightarrow> False)"

lemma update_truck_no_arrival:
  "\<not> arrives_now t \<Longrightarrow> \<exists>t'. update_truck g t dt = Inr (g, t')"
  by (auto simp: update_truck_def arrives_now_def Let_def split: list.splits)

lemma update_truck_arrival:
  assumes "arrives_now t"
  shows "\<exists>c'. path_cells t = [c'] \<and>
           update_truck g t dt =
             on_truck_arrival g (t\<lparr>position_px := cell_center c', current_cell := c', path_cells := []\<rparr>)"
proof -
  obtain c' where c': "path_cells t = [c']"
    using assms by (auto simp: arrives_now_def split: list.splits)
  then show ?thesis
    using assms by (simp add: arrives_now_def update_truck_def Let_def)
qed

text \<open>
  \<open>passes_by c t\<close>: in this tick the truck does not arrive on cell \<open>c\<close>, and if it arrives
  somewhere it is not in the state \<open>waiting_for_bmats\<close>, whose branch of
  \<open>on_truck_arrival\<close> raises.
\<close>

definition passes_by :: "coord \<Rightarrow> truck \<Rightarrow> bool" where
  "passes_by c t = (arrives_now t \<longrightarrow> path_cells t \<noteq> [c] \<and> state t \<noteq> waiting_for_bmats)"

lemma calm_update_truck:
  assumes "pool_keys g" and "passes_by c t"
  shows "\<exists>g' t'. update_truck g t dt = Inr (g', t') \<and> calm c g g'"
proof (cases "arrives_now t")
  case False
  then show ?thesis
    using update_truck_no_arrival[of t g dt] calm_refl[OF assms(1), of c] by blast
next
  case True
  obtain c' where c': "path_cells t = [c']"
      "update_truck g t dt =
         on_truck_arrival g (t\<lparr>position_px := cell_center c', current_cell := c', path_cells := []\<rparr>)"
    using update_truck_arrival[OF True] by blast
  have "c' \<noteq> c" and "state t \<noteq> waiting_for_bmats"
    using assms(2) True c'(1) by (auto simp: passes_by_def)
  then show ?thesis
    using calm_on_truck_arrival[OF assms(1),
        of "t\<lparr>position_px := cell_center c', current_cell := c', path_cells := []\<rparr>" c] c'(2)
    by simp
qed

lemma calm_update_trucks:
  "pool_keys g \<Longrightarrow> list_all (passes_by c) ts \<Longrightarrow>
   \<exists>g' ts'. update_trucks g dt ts = Inr (g', ts') \<and> calm c g g'"
proof (induction ts arbitrary: g)
  case Nil
  then show ?case by (simp add: calm_refl)
next
  case (Cons t ts)
  obtain g1 t1 where u: "update_truck g t dt = Inr (g1, t1)" "calm c g g1"
    using calm_update_truck[of g c t dt] Cons.prems by auto
  obtain g2 ts1 where v: "update_trucks g1 dt ts = Inr (g2, ts1)" "calm c g1 g2"
    using Cons.IH[of g1] Cons.prems(2) u(2) by (auto simp: calm_def)
  show ?case using u v calm_trans[of c g g1 g2] by simp
qed

text \<open>
  Claim C6, as amended.  For a facility with positive production rate that is not
  road-connected to the base, the production step of \<open>update(dt)\<close> leaves the facility as
  it is, for every \<open>dt\<close>: nothing accrues and the conversion timer does not move.  The
  whole of \<open>update(dt)\<close> returns and leaves the facility (its storage included) unchanged
  whenever no truck arrives on the facility's cell in that tick; trucks that arrive
  elsewhere, at the base or at another facility, do not touch it.
\<close>

theorem disconnected_facility_frozen:
  assumes "i < length (buildings g)"
    and "0 < production_rate_per_sec (buildings g ! i)"
    and "is_cell_connected_to_base_by_roads g (cell (buildings g ! i)) = Inr False"
  shows "produce g dt (buildings g ! i) = Inr (buildings g ! i) \<and>
         (pool_keys g \<and> list_all (passes_by (cell (buildings g ! i))) (trucks g) \<longrightarrow>
            (\<exists>g'. update g dt = Inr g' \<and> buildings g' ! i = buildings g ! i))"
proof (intro conjI impI)
  show p: "produce g dt (buildings g ! i) = Inr (buildings g ! i)"
    using assms(3) by (rule produce_disconnected)
  assume quiet: "pool_keys g \<and> list_all (passes_by (cell (buildings g ! i))) (trucks g)"
  obtain bs where bs: "produce_all g dt (buildings g) = Inr bs" "length bs = length (buildings g)"
      "\<forall>i < length (buildings g). produce g dt (buildings g ! i) = Inr (bs ! i)"
    using produce_all_nth by blast
  have same: "bs ! i = buildings g ! i" using bs(3) assms(1) p by auto
  let ?g0 = "g\<lparr>buildings := bs\<rparr>"
  obtain g1 ts where u: "update_trucks ?g0 dt (trucks g) = Inr (g1, ts)"
      "calm (cell (buildings g ! i)) ?g0 g1"
    using calm_update_trucks[of ?g0 "cell (buildings g ! i)" "trucks g" dt] quiet
    by (auto simp: pool_keys_upd)
  have "buildings g1 ! i = bs ! i"
    using u(2) assms(1) bs(2) same by (simp add: calm_def kept_at_def)
  moreover have "update g dt = Inr (g1\<lparr>trucks := ts\<rparr>)"
    using bs(1) u(1) by (simp add: update_def)
  ultimately show "\<exists>g'. update g dt = Inr g' \<and> buildings g' ! i = buildings g ! i"
    using same by simp
qed

lemma cut_world_disconnected:
  "is_cell_connected_to_base_by_roads cut_world (9, 5) = Inr False"
  by (simp add: is_cell_connected_to_base_by_roads_def cut_world_def camp_world_def world_eval)

text \<open>
  The world with the road cut, and a truck that reaches the base in this tick with 5 wood:
  the tick delivers at the base and the disconnected camp keeps its 35 wood.
\<close>

definition delivering_truck :: truck where
  "delivering_truck = returning_truck\<lparr>current_cell := (5, 6), path_cells := [(5, 5)]\<rparr>"

definition delivery_world :: game where
  "delivery_world = cut_world\<lparr>trucks := [delivering_truck]\<rparr>"

theorem disconnected_facility_frozen_witness:
  "arrives_now (hd (trucks delivery_world)) \<and>
   (\<exists>g'. update delivery_world 7 = Inr g' \<and> storage (buildings g' ! 0) ''wood'' = Some 35)"
proof -
  have a: "arrives_now delivering_truck"
    by (simp add: delivering_truck_def returning_truck_def arrives_now_def)
  have "list_all (passes_by (9, 5)) (trucks delivery_world)"
    by (simp add: delivery_world_def delivering_truck_def returning_truck_def passes_by_def)
  moreover have "pool_keys delivery_world"
    by (simp add: pool_keys_def delivery_world_def cut_world_def)
  moreover have "is_cell_connected_to_base_by_roads delivery_world (9, 5) = Inr False"
    using cut_world_disconnected connected_cong[of delivery_world cut_world "(9, 5)"]
    by (simp add: delivery_world_def)
  moreover have "0 < length (buildings delivery_world)"
    and "0 < production_rate_per_sec (buildings delivery_world ! 0)"
    and "cell (buildings delivery_world ! 0) = (9, 5)"
    and "storage (buildings delivery_world ! 0) ''wood'' = Some 35"
    by (simp_all add: delivery_world_def cut_world_def camp_world_def)
  ultimately show ?thesis
    using disconnected_facility_frozen[of 0 delivery_world 7] a
    by (auto simp: delivery_world_def)
qed

text \<open>
  Claim C6 as stated has \<open>update(dt)\<close> leave the storage of a disconnected facility
  completely unchanged.  A truck that was sent to the camp before the road was cut and
  reaches the camp in this tick still loads: the tick takes 5 wood out of the storage of
  the disconnected camp.
\<close>

definition loading_truck :: truck where
  "loading_truck =
     \<lparr>truck_id = 1, position_px = cell_center (9, 5), current_cell = (8, 5),
      path_cells = [(9, 5)],
      speed_px_per_sec = real_of_int GRID_SIZE * (12 / 10), state = to_source,
      cargo_type = Some ''wood'', cargo_amount = 0, cargo_capacity = 20,
      repeat_enabled = False, saved_source = Some (9, 5), saved_dest = Some (5, 5),
      saved_resource = Some ''wood'', dest_cell = Some (5, 5), refinery_loop = None,
      stone_delivered = None, waiting_timer = None, waiting_target = None\<rparr>"

definition stranded_world :: game where
  "stranded_world = cut_world\<lparr>trucks := [loading_truck]\<rparr>"

theorem truck_loads_from_disconnected_camp:
  "\<exists>g'. update stranded_world 1 = Inr g' \<and>
        0 < production_rate_per_sec (buildings stranded_world ! 0) \<and>
        is_cell_connected_to_base_by_roads stranded_world (cell (buildings stranded_world ! 0)) = Inr False \<and>
        storage (buildings stranded_world ! 0) ''wood'' = Some 35 \<and>
        storage (buildings g' ! 0) ''wood'' = Some 30"
proof -
  have d: "is_cell_connected_to_base_by_roads stranded_world (9, 5) = Inr False"
    using cut_world_disconnected connected_cong[of stranded_world cut_world "(9, 5)"]
    by (simp add: stranded_world_def)
  have b: "buildings stranded_world =
             [\<lparr>btype = lumber, cell = (9, 5), radius_cells = 5, production_rate_per_sec = 2 / 10,
               storage = [''wood'' \<mapsto> 35], conversion_timer = None\<rparr>]"
    by (simp add: stranded_world_def cut_world_def camp_world_def)
  have p: "produce_all stranded_world 1 (buildings stranded_world) = Inr (buildings stranded_world)"
    using d by (simp add: b produce_def)
  have w: "stranded_world\<lparr>buildings := buildings stranded_world\<rparr> = stranded_world" by simp
  have "\<exists>g1 t1. update_truck stranded_world loading_truck 1 = Inr (g1, t1) \<and>
           storage (buildings g1 ! 0) ''wood'' = Some 30"
    by (simp add: Let_def update_truck_def loading_truck_def cell_center_def GRID_SIZE_def
        on_truck_arrival_def arrival_to_source_def get_building_at_cell_def
        load_from_building_def load_amount_of_def head_to_dest_def
        stranded_world_def cut_world_def camp_world_def world_eval)
  then obtain g1 t1 where u: "update_truck stranded_world loading_truck 1 = Inr (g1, t1)"
      "storage (buildings g1 ! 0) ''wood'' = Some 30" by blast
  have "trucks stranded_world = [loading_truck]" by (simp add: stranded_world_def)
  then have "update stranded_world 1 = Inr (g1\<lparr>trucks := [t1]\<rparr>)"
    using p u(1) by (simp add: update_def w)
  then show ?thesis using u(2) d by (simp add: b)
qed

end
